theory Spec2Isabelle
  imports Main
begin

section \<open>Python values\<close>

text \<open>
  A Python \<^verbatim>\<open>str\<close> is a sequence of Unicode code points; it is modelled as a list of
  natural numbers.  \<open>py\<close> turns an ASCII literal of the source into such a string.
\<close>

type_synonym ustr = "nat list"

definition py :: "string \<Rightarrow> ustr" where
  "py s = map of_char s"

text \<open>
  Exceptions are values.  Every \<^verbatim>\<open>except Exception\<close> of the source catches all of them.
\<close>

datatype exn =
    TransportError
  | JSONDecodeError
  | TypeError
  | AttributeError
  | RecursionError
  | KeyError
  | OSError
  | Exception string

text \<open>
  The values that \<^verbatim>\<open>json.loads\<close> produces and \<^verbatim>\<open>json.dumps\<close> accepts.  A dictionary
  is the list of its items in insertion order.  A float is kept as the literal it was
  read from: float arithmetic and \<^verbatim>\<open>repr\<close> are not modelled.
\<close>

datatype pyval =
    PNone
  | PBool bool
  | PInt int
  | PFloat ustr
  | PStr ustr
  | PList "pyval list"
  | PDict "(ustr \<times> pyval) list"

section \<open>The \<^verbatim>\<open>json\<close> module of the Python standard library\<close>

text \<open>
  The access logger stores its queue with
  \<^verbatim>\<open>json.dumps(cache, indent=2, ensure_ascii=False)\<close> and reads it back with
  \<^verbatim>\<open>json.loads(content)\<close>.  Both are library functions; they are modelled here from the
  library's encoder and decoder.  Characters are written by their code points:
  34 is the double quote, 92 the backslash, 10 the newline, 32 the space, 44 the comma,
  58 the colon, 91 and 93 the brackets, 123 and 125 the braces.
\<close>

subsection \<open>Encoding\<close>

text \<open>
  With \<^verbatim>\<open>ensure_ascii=False\<close> a string is escaped by the table \<^verbatim>\<open>ESCAPE_DCT\<close>: the
  quote, the backslash, \<^verbatim>\<open>\b \f \n \r \t\<close>, and \<^verbatim>\<open>\u00XX\<close> for every other character
  below 32; all other characters stand for themselves.
\<close>
definition hexdigit :: "nat \<Rightarrow> nat" where
  "hexdigit d = (if d < 10 then 48 + d else 87 + d)"

definition escape_char :: "nat \<Rightarrow> ustr" where
  "escape_char c =
     (if c = 34 then [92, 34]
      else if c = 92 then [92, 92]
      else if c = 8 then [92, 98]
      else if c = 12 then [92, 102]
      else if c = 10 then [92, 110]
      else if c = 13 then [92, 114]
      else if c = 9 then [92, 116]
      else if c < 32 then [92, 117, 48, 48, hexdigit (c div 16), hexdigit (c mod 16)]
      else [c])"

definition encode_basestring :: "ustr \<Rightarrow> ustr" where
  "encode_basestring s = 34 # concat (map escape_char s) @ [34]"

text \<open>\<^verbatim>\<open>int.__repr__\<close>: the decimal digits, with a minus sign for a negative number.\<close>
fun decimal :: "nat \<Rightarrow> ustr" where
  "decimal n = (if n < 10 then [48 + n] else decimal (n div 10) @ [48 + n mod 10])"

declare decimal.simps [simp del]

definition int_repr :: "int \<Rightarrow> ustr" where
  "int_repr i = (if i < 0 then 45 # decimal (nat (- i)) else decimal (nat i))"

text \<open>
  \<^verbatim>\<open>_iterencode\<close> with \<^verbatim>\<open>indent=2\<close>: an empty list or dictionary is written \<^verbatim>\<open>[]\<close> or
  \<^verbatim>\<open>{}\<close>; otherwise every item stands on a line of its own, indented by two spaces
  per level, items are separated by a comma, and a key is followed by a colon and a space.
\<close>
definition newline_indent :: "nat \<Rightarrow> ustr" where
  "newline_indent lvl = 10 # replicate (2 * lvl) 32"

fun iterencode :: "nat \<Rightarrow> pyval \<Rightarrow> ustr"
  and iterencode_list :: "nat \<Rightarrow> pyval list \<Rightarrow> ustr"
  and iterencode_dict :: "nat \<Rightarrow> (ustr \<times> pyval) list \<Rightarrow> ustr" where
  "iterencode lvl PNone = py ''null''"
| "iterencode lvl (PBool b) = (if b then py ''true'' else py ''false'')"
| "iterencode lvl (PInt i) = int_repr i"
| "iterencode lvl (PFloat s) = s"
| "iterencode lvl (PStr s) = encode_basestring s"
| "iterencode lvl (PList xs) =
     (if xs = [] then py ''[]''
      else 91 # newline_indent (lvl + 1) @ iterencode_list (lvl + 1) xs @ newline_indent lvl @ [93])"
| "iterencode lvl (PDict ms) =
     (if ms = [] then py ''{}''
      else 123 # newline_indent (lvl + 1) @ iterencode_dict (lvl + 1) ms @ newline_indent lvl @ [125])"
| "iterencode_list lvl [] = []"
| "iterencode_list lvl (x # xs) =
     iterencode lvl x @ (if xs = [] then [] else 44 # newline_indent lvl @ iterencode_list lvl xs)"
| "iterencode_dict lvl [] = []"
| "iterencode_dict lvl ((k, v) # ms) =
     encode_basestring k @ [58, 32] @ iterencode lvl v
       @ (if ms = [] then [] else 44 # newline_indent lvl @ iterencode_dict lvl ms)"

definition json_dumps :: "pyval \<Rightarrow> ustr" where
  "json_dumps v = iterencode 0 v"

subsection \<open>Decoding\<close>

text \<open>
  The decoder works on the rest of the input.  Whitespace is \<^verbatim>\<open>' \t\n\r'\<close>.
\<close>
definition is_ws :: "nat \<Rightarrow> bool" where
  "is_ws c = (c = 32 \<or> c = 9 \<or> c = 10 \<or> c = 13)"

definition skip_ws :: "ustr \<Rightarrow> ustr" where
  "skip_ws s = dropWhile is_ws s"

text \<open>
  \<^verbatim>\<open>scanstring\<close>, called after the opening quote, with \<^verbatim>\<open>strict=True\<close>: it reads up to
  the closing quote, refuses a raw character below 32, and decodes the escapes; a
  \<^verbatim>\<open>\uXXXX\<close> high surrogate followed by a \<^verbatim>\<open>\uXXXX\<close> low surrogate is one character.
  The result is the string and the input after the closing quote.
\<close>
definition hexval :: "nat \<Rightarrow> nat option" where
  "hexval c =
     (if 48 \<le> c \<and> c \<le> 57 then Some (c - 48)
      else if 97 \<le> c \<and> c \<le> 102 then Some (c - 87)
      else if 65 \<le> c \<and> c \<le> 70 then Some (c - 55)
      else None)"

fun decode_uXXXX :: "ustr \<Rightarrow> nat option" where
  "decode_uXXXX (a # b # c # d # r) =
     (case (hexval a, hexval b, hexval c, hexval d) of
        (Some x3, Some x2, Some x1, Some x0) \<Rightarrow> Some (((x3 * 16 + x2) * 16 + x1) * 16 + x0)
      | _ \<Rightarrow> None)"
| "decode_uXXXX _ = None"

definition backslash :: "nat \<Rightarrow> nat option" where
  "backslash esc =
     (if esc = 34 then Some 34
      else if esc = 92 then Some 92
      else if esc = 47 then Some 47
      else if esc = 98 then Some 8
      else if esc = 102 then Some 12
      else if esc = 110 then Some 10
      else if esc = 114 then Some 13
      else if esc = 116 then Some 9
      else None)"

definition cons_char :: "nat \<Rightarrow> (ustr \<times> ustr) option \<Rightarrow> (ustr \<times> ustr) option" where
  "cons_char c r = (case r of None \<Rightarrow> None | Some (str, rest) \<Rightarrow> Some (c # str, rest))"

function (sequential) scanstring :: "ustr \<Rightarrow> (ustr \<times> ustr) option" where
  "scanstring [] = None"
| "scanstring (c # cs) =
     (if c = 34 then Some ([], cs)
      else if c = 92 then
        (case cs of
           [] \<Rightarrow> None
         | esc # r \<Rightarrow>
             if esc = 117 then
               (case decode_uXXXX r of
                  None \<Rightarrow> None
                | Some uni \<Rightarrow>
                    if 55296 \<le> uni \<and> uni \<le> 56319 \<and> take 2 (drop 4 r) = [92, 117] then
                      (case decode_uXXXX (drop 6 r) of
                         None \<Rightarrow> None
                       | Some uni2 \<Rightarrow>
                           if 56320 \<le> uni2 \<and> uni2 \<le> 57343
                           then cons_char (65536 + (uni - 55296) * 1024 + (uni2 - 56320))
                                  (scanstring (drop 10 r))
                           else cons_char uni (scanstring (drop 4 r)))
                    else cons_char uni (scanstring (drop 4 r)))
             else (case backslash esc of
                     None \<Rightarrow> None
                   | Some ch \<Rightarrow> cons_char ch (scanstring r)))
      else if c < 32 then None
      else cons_char c (scanstring cs))"
  by pat_completeness auto
termination
  by (relation "measure length") auto

text \<open>
  \<^verbatim>\<open>NUMBER_RE = (-?(?:0|[1-9][0-9]*))(\.[0-9]+)?([eE][-+]?[0-9]+)?\<close>: a number without
  fraction and exponent is an integer, any other a float.
\<close>
definition is_digit :: "nat \<Rightarrow> bool" where
  "is_digit c = (48 \<le> c \<and> c \<le> 57)"

definition int_of_digits :: "ustr \<Rightarrow> nat" where
  "int_of_digits ds = foldl (\<lambda>a d. 10 * a + (d - 48)) 0 ds"

definition match_integer :: "ustr \<Rightarrow> (ustr \<times> ustr) option" where
  "match_integer s =
     (case s of
        [] \<Rightarrow> None
      | d # t \<Rightarrow>
          if d = 48 then Some ([48], t)
          else if 49 \<le> d \<and> d \<le> 57 then Some (d # takeWhile is_digit t, dropWhile is_digit t)
          else None)"

definition match_frac :: "ustr \<Rightarrow> ustr \<times> ustr" where
  "match_frac s =
     (case s of
        c # d # t \<Rightarrow>
          if c = 46 \<and> is_digit d then (c # d # takeWhile is_digit t, dropWhile is_digit t)
          else ([], s)
      | _ \<Rightarrow> ([], s))"

definition match_exp :: "ustr \<Rightarrow> ustr \<times> ustr" where
  "match_exp s =
     (case s of
        e # t \<Rightarrow>
          if e = 101 \<or> e = 69 then
            (let sg = (case t of c # _ \<Rightarrow> if c = 43 \<or> c = 45 then [c] else [] | [] \<Rightarrow> []);
                 t' = drop (length sg) t
             in if t' \<noteq> [] \<and> is_digit (hd t')
                then (e # sg @ takeWhile is_digit t', dropWhile is_digit t')
                else ([], s))
          else ([], s)
      | [] \<Rightarrow> ([], s))"

definition match_number :: "ustr \<Rightarrow> (pyval \<times> ustr) option" where
  "match_number s =
     (let sg = (case s of c # _ \<Rightarrow> if c = 45 then [c] else [] | [] \<Rightarrow> [])
      in case match_integer (drop (length sg) s) of
           None \<Rightarrow> None
         | Some (ds, r0) \<Rightarrow>
             (case match_frac r0 of (frac, r1) \<Rightarrow>
             (case match_exp r1 of (ex, r2) \<Rightarrow>
                if frac = [] \<and> ex = []
                then Some (PInt (if sg = [] then int (int_of_digits ds) else - int (int_of_digits ds)), r2)
                else Some (PFloat (sg @ ds @ frac @ ex), r2))))"

definition match_constant :: "ustr \<Rightarrow> (pyval \<times> ustr) option" where
  "match_constant s =
     (if take 3 s = py ''NaN'' then Some (PFloat (py ''NaN''), drop 3 s)
      else if take 8 s = py ''Infinity'' then Some (PFloat (py ''Infinity''), drop 8 s)
      else if take 9 s = py ''-Infinity'' then Some (PFloat (py ''-Infinity''), drop 9 s)
      else None)"

text \<open>
  \<^verbatim>\<open>dict(pairs)\<close>: a key that occurs again keeps its place and takes the later value.
\<close>
fun dict_setitem :: "(ustr \<times> pyval) list \<Rightarrow> ustr \<Rightarrow> pyval \<Rightarrow> (ustr \<times> pyval) list" where
  "dict_setitem [] k v = [(k, v)]"
| "dict_setitem ((k', v') # d) k v = (if k' = k then (k, v) # d else (k', v') # dict_setitem d k v)"

definition dict_of_pairs :: "(ustr \<times> pyval) list \<Rightarrow> (ustr \<times> pyval) list" where
  "dict_of_pairs pairs = foldl (\<lambda>d (k, v). dict_setitem d k v) [] pairs"

text \<open>
  \<^verbatim>\<open>scan_once\<close>, \<^verbatim>\<open>JSONArray\<close> and \<^verbatim>\<open>JSONObject\<close> call each other.  The first argument
  bounds the number of nested calls; \<open>Fuel\<close> is the result when the bound is reached,
  \<open>Fail\<close> stands for \<^verbatim>\<open>JSONDecodeError\<close>.  \<open>JSONArray\<close> is entered at the first value of a
  list that is not empty, \<open>JSONObject\<close> after the opening quote of the first key.
\<close>
datatype 'a scan = Fuel | Fail | Ok 'a

fun scan_once :: "nat \<Rightarrow> ustr \<Rightarrow> (pyval \<times> ustr) scan"
  and JSONArray :: "nat \<Rightarrow> ustr \<Rightarrow> (pyval list \<times> ustr) scan"
  and JSONObject :: "nat \<Rightarrow> ustr \<Rightarrow> ((ustr \<times> pyval) list \<times> ustr) scan" where
  "scan_once 0 s = Fuel"
| "scan_once (Suc n) [] = Fail"
| "scan_once (Suc n) (c # cs) =
     (if c = 34 then
        (case scanstring cs of None \<Rightarrow> Fail | Some (str, r) \<Rightarrow> Ok (PStr str, r))
      else if c = 123 then
        (case skip_ws cs of
           [] \<Rightarrow> Fail
         | c' # r \<Rightarrow>
             if c' = 125 then Ok (PDict [], r)
             else if c' = 34 then
               (case JSONObject n r of
                  Ok (pairs, r') \<Rightarrow> Ok (PDict (dict_of_pairs pairs), r')
                | Fail \<Rightarrow> Fail
                | Fuel \<Rightarrow> Fuel)
             else Fail)
      else if c = 91 then
        (case skip_ws cs of
           [] \<Rightarrow> Fail
         | c' # r \<Rightarrow>
             if c' = 93 then Ok (PList [], r)
             else
               (case JSONArray n (c' # r) of
                  Ok (vs, r') \<Rightarrow> Ok (PList vs, r')
                | Fail \<Rightarrow> Fail
                | Fuel \<Rightarrow> Fuel))
      else if c = 110 \<and> take 3 cs = py ''ull'' then Ok (PNone, drop 3 cs)
      else if c = 116 \<and> take 3 cs = py ''rue'' then Ok (PBool True, drop 3 cs)
      else if c = 102 \<and> take 4 cs = py ''alse'' then Ok (PBool False, drop 4 cs)
      else
        (case match_number (c # cs) of
           Some res \<Rightarrow> Ok res
         | None \<Rightarrow> (case match_constant (c # cs) of Some res \<Rightarrow> Ok res | None \<Rightarrow> Fail)))"
| "JSONArray 0 s = Fuel"
| "JSONArray (Suc n) s =
     (case scan_once n s of
        Fuel \<Rightarrow> Fuel
      | Fail \<Rightarrow> Fail
      | Ok (v, r) \<Rightarrow>
          (case skip_ws r of
             [] \<Rightarrow> Fail
           | c # r' \<Rightarrow>
               if c = 93 then Ok ([v], r')
               else if c = 44 then
                 (case JSONArray n (skip_ws r') of
                    Ok (vs, r'') \<Rightarrow> Ok (v # vs, r'')
                  | Fail \<Rightarrow> Fail
                  | Fuel \<Rightarrow> Fuel)
               else Fail))"
| "JSONObject 0 s = Fuel"
| "JSONObject (Suc n) s =
     (case scanstring s of
        None \<Rightarrow> Fail
      | Some (key, r) \<Rightarrow>
          (case skip_ws r of
             [] \<Rightarrow> Fail
           | c # r1 \<Rightarrow>
               if c \<noteq> 58 then Fail
               else
                 (case scan_once n (skip_ws r1) of
                    Fuel \<Rightarrow> Fuel
                  | Fail \<Rightarrow> Fail
                  | Ok (v, r2) \<Rightarrow>
                      (case skip_ws r2 of
                         [] \<Rightarrow> Fail
                       | c2 # r3 \<Rightarrow>
                           if c2 = 125 then Ok ([(key, v)], r3)
                           else if c2 = 44 then
                             (case skip_ws r3 of
                                [] \<Rightarrow> Fail
                              | c3 # r4 \<Rightarrow>
                                  if c3 \<noteq> 34 then Fail
                                  else
                                    (case JSONObject n r4 of
                                       Ok (ps, r5) \<Rightarrow> Ok ((key, v) # ps, r5)
                                     | Fail \<Rightarrow> Fail
                                     | Fuel \<Rightarrow> Fuel))
                           else Fail))))"

text \<open>
  \<^verbatim>\<open>json.loads\<close> of a \<^verbatim>\<open>str\<close>: a leading byte order mark is refused, whitespace is
  skipped before and after the value, and anything else after the value is an error
  (\<^verbatim>\<open>Extra data\<close>).  The bound on nested calls is twice the length of the input and
  two.  Limits of the interpreter (recursion depth, the length of integer literals) are
  not modelled.
\<close>
definition json_loads :: "ustr \<Rightarrow> exn + pyval" where
  "json_loads s =
     (if take 1 s = [65279] then Inl JSONDecodeError
      else
        (case scan_once (2 * length s + 2) (skip_ws s) of
           Fuel \<Rightarrow> Inl RecursionError
         | Fail \<Rightarrow> Inl JSONDecodeError
         | Ok (v, r) \<Rightarrow> if skip_ws r = [] then Inr v else Inl JSONDecodeError))"

section \<open>Configuration (\<^verbatim>\<open>src/config.py\<close>)\<close>

text \<open>
  The fields of \<^verbatim>\<open>Config\<close> that the modelled components read.  \<open>DEVICE_TYPE\<close> and
  \<open>ENVIRONMENT\<close> are the strings of the environment; durations are counted in clock ticks.
\<close>

record config =
  DEVICE_ID :: ustr
  DEVICE_TYPE :: ustr
  ENVIRONMENT :: ustr
  RELAY_CHANNEL_1 :: int
  RELAY_OPEN_DURATION :: nat
  FALLBACK_MODE_ENABLED :: bool
  MAX_OFFLINE_LOGS :: int
  AUTO_UPDATE_ENABLED :: bool
  RELAY_CHANNEL_2_env :: int

definition is_test_mode :: "config \<Rightarrow> bool" where
  "is_test_mode cfg = (ENVIRONMENT cfg = py ''test'')"

definition is_turnstile :: "config \<Rightarrow> bool" where
  "is_turnstile cfg = (DEVICE_TYPE cfg = py ''turnstile'')"

text \<open>
  \<^verbatim>\<open>self.RELAY_CHANNEL_2 = int(os.getenv('RELAY_CHANNEL_2', '19'))
      if self.DEVICE_TYPE == 'turnstile' else None\<close>
\<close>

definition RELAY_CHANNEL_2 :: "config \<Rightarrow> int option" where
  "RELAY_CHANNEL_2 cfg =
     (if DEVICE_TYPE cfg = py ''turnstile'' then Some (RELAY_CHANNEL_2_env cfg) else None)"

section \<open>Backend collaborator\<close>

text \<open>
  Modelled from the spec: the module \<^verbatim>\<open>backend_client\<close> is imported by the controller but
  is not among the sources.  The spec gives its interface,
  \<^verbatim>\<open>check_access(card_id, direction) -> {authorized: bool}\<close>; a call either raises or
  returns a response in which the key \<^verbatim>\<open>authorized\<close> may be absent.
\<close>

record access_response =
  authorized :: "bool option"

text \<open>
  Modelled from the spec: the update metadata,
  \<^verbatim>\<open>check_updates() -> optional{id, version, hash?, size?, format, requires_restart,
  update_available}\<close>.  The updater reads every key with \<^verbatim>\<open>update_info.get\<close>, so each
  may be absent.  The package is a byte string;
  \<^verbatim>\<open>download_update(meta) -> bytes\<close> may also return nothing, and
  \<^verbatim>\<open>report_update_status(id, status, error?)\<close> may raise like every call.
\<close>

type_synonym bytes = "nat list"

record update_info =
  u_id :: "ustr option"
  u_version :: "ustr option"
  u_hash :: "ustr option"
  u_size :: "nat option"
  u_format :: "ustr option"
  u_requires_restart :: "bool option"
  u_update_available :: "bool option"

record backend =
  check_access :: "ustr \<Rightarrow> ustr \<Rightarrow> exn + access_response"
  check_updates :: "exn + update_info option"
  download_update :: "update_info \<Rightarrow> exn + bytes option"
  report_update_status :: "ustr option \<Rightarrow> ustr \<Rightarrow> exn + unit"

section \<open>Authorization (\<^verbatim>\<open>TurnstileController._check_authorization\<close>)\<close>

text \<open>
  The whitelist argument is the list that \<^verbatim>\<open>config.get_whitelist()\<close> returns at the call
  (the decoded whitelist file, or the empty list when the file is missing or unreadable).
  \<open>authorization_try\<close> is the body of the \<^verbatim>\<open>try\<close> block; \<open>check_authorization\<close> adds the
  \<^verbatim>\<open>except Exception\<close> handler.
\<close>

definition response_get_authorized :: "access_response \<Rightarrow> bool" where
  "response_get_authorized r = (case authorized r of None \<Rightarrow> False | Some b \<Rightarrow> b)"

definition authorization_try :: "config \<Rightarrow> backend \<Rightarrow> bool \<Rightarrow> ustr list \<Rightarrow> ustr \<Rightarrow> ustr \<Rightarrow> exn + bool" where
  "authorization_try cfg be online whitelist card_id direction =
     (if online then
        (case check_access be card_id direction of
           Inl e \<Rightarrow> Inl e
         | Inr response \<Rightarrow> Inr (response_get_authorized response))
      else if FALLBACK_MODE_ENABLED cfg then Inr (card_id \<in> set whitelist)
      else Inr False)"

definition check_authorization :: "config \<Rightarrow> backend \<Rightarrow> bool \<Rightarrow> ustr list \<Rightarrow> ustr \<Rightarrow> ustr \<Rightarrow> bool" where
  "check_authorization cfg be online whitelist card_id direction =
     (case authorization_try cfg be online whitelist card_id direction of
        Inr b \<Rightarrow> b
      | Inl e \<Rightarrow> (if FALLBACK_MODE_ENABLED cfg then card_id \<in> set whitelist else False))"

section \<open>Relay controller (\<^verbatim>\<open>src/relay_controller.py\<close>)\<close>

text \<open>
  The dictionaries of the controller are maps.  \<open>relay_tasks\<close> holds, for each channel,
  the task created last by \<^verbatim>\<open>asyncio.create_task(self._timed_relay_activation(channel,
  duration))\<close>: created and not yet run, suspended in \<^verbatim>\<open>asyncio.sleep(duration)\<close> until a
  clock value, or ended.  \<open>ready\<close> is the queue of the event loop: the steps of tasks
  that are scheduled and have not run yet, in the order they were scheduled.  A task that
  was replaced in \<open>relay_tasks\<close> is present only by its scheduled step.  \<open>gpio\<close> lists
  the calls \<^verbatim>\<open>GPIO.output(pin, level)\<close> in the order they were made, and \<open>clock\<close> is
  the time of the event loop.  \<^verbatim>\<open>GPIO.output\<close> itself is taken not to fail.
\<close>

datatype task = Created | Sleeping nat | Done | Cancelled | Raised exn

text \<open>
  The scheduled steps: the first step of a task for a channel with its duration; the
  first step of a task that was cancelled before it ran, which ends the task without
  entering its body; the delivery of \<^verbatim>\<open>CancelledError\<close> to a task that was cancelled in
  its sleep; and the step of a task whose sleep has ended.
\<close>

datatype step = Start nat nat | Dropped nat | Handler nat | Wake nat

record relay_controller =
  relay_pins :: "nat \<rightharpoonup> int"
  relay_states :: "nat \<rightharpoonup> bool"
  relay_tasks :: "nat \<rightharpoonup> task"
  ready :: "step list"
  gpio :: "(int \<times> bool) list"
  clock :: nat

text \<open>
  \<^verbatim>\<open>__init__\<close>: the channel map is built with channel 2 bound to \<^verbatim>\<open>None\<close> on a device
  that is not a turnstile, and the \<^verbatim>\<open>None\<close> entries are then removed.
\<close>

definition relay_pins_init :: "config \<Rightarrow> nat \<rightharpoonup> int option" where
  "relay_pins_init cfg =
     [1 \<mapsto> Some (RELAY_CHANNEL_1 cfg),
      2 \<mapsto> (if is_turnstile cfg then RELAY_CHANNEL_2 cfg else None)]"

definition RelayController :: "config \<Rightarrow> relay_controller" where
  "RelayController cfg =
     \<lparr>relay_pins = (\<lambda>k. case relay_pins_init cfg k of Some (Some v) \<Rightarrow> Some v | _ \<Rightarrow> None),
      relay_states = Map.empty,
      relay_tasks = Map.empty,
      ready = [],
      gpio = [],
      clock = 0\<rparr>"

text \<open>
  \<^verbatim>\<open>_set_relay_state\<close>: outside test mode the pin is looked up (a \<^verbatim>\<open>KeyError\<close> for a channel
  that is not in the map) and driven; the recorded state is then updated.
\<close>

definition set_relay_state :: "config \<Rightarrow> relay_controller \<Rightarrow> nat \<Rightarrow> bool \<Rightarrow> exn + relay_controller" where
  "set_relay_state cfg rc channel state =
     (if \<not> is_test_mode cfg then
        (case relay_pins rc channel of
           None \<Rightarrow> Inl KeyError
         | Some pin \<Rightarrow>
             Inr (rc\<lparr>gpio := gpio rc @ [(pin, state)],
                     relay_states := (relay_states rc)(channel \<mapsto> state)\<rparr>))
      else Inr (rc\<lparr>relay_states := (relay_states rc)(channel \<mapsto> state)\<rparr>))"

definition set_task :: "relay_controller \<Rightarrow> nat \<Rightarrow> task \<Rightarrow> relay_controller" where
  "set_task rc channel t = rc\<lparr>relay_tasks := (relay_tasks rc)(channel \<mapsto> t)\<rparr>"

text \<open>
  The handlers of \<^verbatim>\<open>_timed_relay_activation\<close> all call \<^verbatim>\<open>_set_relay_state(channel, False)\<close>
  and re-raise; if that call raises as well, the state is as it was.
\<close>

definition handler_off :: "config \<Rightarrow> relay_controller \<Rightarrow> nat \<Rightarrow> relay_controller" where
  "handler_off cfg rc channel =
     (case set_relay_state cfg rc channel False of Inr rc' \<Rightarrow> rc' | Inl e \<Rightarrow> rc)"

text \<open>
  \<^verbatim>\<open>_timed_relay_activation\<close>, first step: the task energizes the relay and suspends in
  \<^verbatim>\<open>asyncio.sleep(duration)\<close>.
\<close>

definition timed_relay_activation_start :: "config \<Rightarrow> relay_controller \<Rightarrow> nat \<Rightarrow> nat \<Rightarrow> relay_controller" where
  "timed_relay_activation_start cfg rc channel duration =
     (case set_relay_state cfg rc channel True of
        Inr rc' \<Rightarrow> set_task rc' channel (Sleeping (clock rc' + duration))
      | Inl e \<Rightarrow> set_task (handler_off cfg rc channel) channel (Raised e))"

text \<open>The step after the sleep has ended: the task de-energizes the relay and returns.\<close>

definition timed_relay_activation_wake :: "config \<Rightarrow> relay_controller \<Rightarrow> nat \<Rightarrow> relay_controller" where
  "timed_relay_activation_wake cfg rc channel =
     (case set_relay_state cfg rc channel False of
        Inr rc' \<Rightarrow> set_task rc' channel Done
      | Inl e \<Rightarrow> set_task (handler_off cfg rc channel) channel (Raised e))"

text \<open>
  The handler of \<^verbatim>\<open>asyncio.CancelledError\<close>: a task cancelled in its sleep de-energizes
  the relay before the cancellation leaves it.  The task is no longer the one in
  \<open>relay_tasks\<close> when this runs.
\<close>

definition timed_relay_activation_cancel :: "config \<Rightarrow> relay_controller \<Rightarrow> nat \<Rightarrow> relay_controller" where
  "timed_relay_activation_cancel cfg rc channel = handler_off cfg rc channel"

text \<open>One scheduled step, and the event loop running every scheduled step in order.\<close>

definition run_step :: "config \<Rightarrow> relay_controller \<Rightarrow> step \<Rightarrow> relay_controller" where
  "run_step cfg rc s =
     (case s of
        Start channel duration \<Rightarrow> timed_relay_activation_start cfg rc channel duration
      | Dropped channel \<Rightarrow> rc
      | Handler channel \<Rightarrow> timed_relay_activation_cancel cfg rc channel
      | Wake channel \<Rightarrow> timed_relay_activation_wake cfg rc channel)"

definition run_ready :: "config \<Rightarrow> relay_controller \<Rightarrow> relay_controller" where
  "run_ready cfg rc = foldl (run_step cfg) (rc\<lparr>ready := []\<rparr>) (ready rc)"

text \<open>
  \<^verbatim>\<open>Task.cancel()\<close> on the task of a channel: a task that has not run yet keeps its place
  in the queue and will end without entering its body, so its handler never runs; a
  sleeping task is scheduled to receive \<^verbatim>\<open>CancelledError\<close>.
\<close>

definition drop_start :: "nat \<Rightarrow> step \<Rightarrow> step" where
  "drop_start channel s =
     (case s of Start c d \<Rightarrow> if c = channel then Dropped channel else s | _ \<Rightarrow> s)"

definition cancel_task :: "relay_controller \<Rightarrow> nat \<Rightarrow> relay_controller" where
  "cancel_task rc channel =
     (case relay_tasks rc channel of
        Some Created \<Rightarrow> rc\<lparr>ready := map (drop_start channel) (ready rc)\<rparr>
      | Some (Sleeping w) \<Rightarrow> rc\<lparr>ready := ready rc @ [Handler channel]\<rparr>
      | _ \<Rightarrow> rc)"

definition task_done :: "task \<Rightarrow> bool" where
  "task_done t = (case t of Created \<Rightarrow> False | Sleeping w \<Rightarrow> False | _ \<Rightarrow> True)"

text \<open>
  \<^verbatim>\<open>activate_relay\<close> up to its \<^verbatim>\<open>await\<close>: the task of the channel is cancelled if it has
  not ended, and a new task is created and scheduled.  \<^verbatim>\<open>None\<close> is returned for a known
  channel: the caller is then suspended on the new task.
\<close>

definition activate_relay_begin :: "config \<Rightarrow> relay_controller \<Rightarrow> nat \<Rightarrow> nat option \<Rightarrow> bool option \<times> relay_controller" where
  "activate_relay_begin cfg rc channel duration_arg =
     (if relay_pins rc channel = None then (Some False, rc)
      else
        let duration = (case duration_arg of None \<Rightarrow> RELAY_OPEN_DURATION cfg | Some d \<Rightarrow> d);
            rc1 = (case relay_tasks rc channel of
                     Some t \<Rightarrow> if \<not> task_done t then cancel_task rc channel else rc
                   | None \<Rightarrow> rc)
        in (None, (set_task rc1 channel Created)\<lparr>ready := ready rc1 @ [Start channel duration]\<rparr>))"

text \<open>
  Time passing: the loop runs what is scheduled, the clock advances, and every task whose
  sleep has ended runs its last step.  Tasks exist for channels 1 and 2 only, the keys
  of the channel map.
\<close>

definition wake_due :: "config \<Rightarrow> nat \<Rightarrow> relay_controller \<Rightarrow> relay_controller" where
  "wake_due cfg channel rc =
     (case relay_tasks rc channel of
        Some (Sleeping w) \<Rightarrow> if w \<le> clock rc then run_step cfg rc (Wake channel) else rc
      | _ \<Rightarrow> rc)"

definition elapse :: "config \<Rightarrow> nat \<Rightarrow> relay_controller \<Rightarrow> relay_controller" where
  "elapse cfg dt rc =
     (let rc1 = run_ready cfg rc
      in wake_due cfg 2 (wake_due cfg 1 (rc1\<lparr>clock := clock rc1 + dt\<rparr>)))"

text \<open>
  \<^verbatim>\<open>activate_relay\<close> as one caller sees it when nothing else activates the channel in the
  meantime: the task runs to its end and the outcome of the \<^verbatim>\<open>await\<close> decides the result
  (\<^verbatim>\<open>True\<close>, or \<^verbatim>\<open>False\<close> from the \<^verbatim>\<open>except Exception\<close> handler).
\<close>

definition activate_relay :: "config \<Rightarrow> relay_controller \<Rightarrow> nat \<Rightarrow> nat option \<Rightarrow> bool \<times> relay_controller" where
  "activate_relay cfg rc channel duration_arg =
     (case activate_relay_begin cfg rc channel duration_arg of
        (Some r, rc') \<Rightarrow> (r, rc')
      | (None, rc1) \<Rightarrow>
          (let duration = (case duration_arg of None \<Rightarrow> RELAY_OPEN_DURATION cfg | Some d \<Rightarrow> d);
               rc2 = elapse cfg duration rc1
           in (case relay_tasks rc2 channel of
                 Some Done \<Rightarrow> (True, rc2)
               | _ \<Rightarrow> (False, rc2))))"

text \<open>
  What happens around one channel, as the claim has it: a call
  \<^verbatim>\<open>activate_relay(channel, d)\<close> is entered, or the event loop runs and some time passes.
  Two calls with nothing between them are made before the loop runs a step.
\<close>

datatype action = Activate nat | Pass nat

fun activations :: "config \<Rightarrow> nat \<Rightarrow> relay_controller \<Rightarrow> action list \<Rightarrow> relay_controller" where
  "activations cfg channel rc [] = rc"
| "activations cfg channel rc (Activate d # acts) =
     activations cfg channel (snd (activate_relay_begin cfg rc channel (Some d))) acts"
| "activations cfg channel rc (Pass dt # acts) = activations cfg channel (elapse cfg dt rc) acts"

text \<open>
  For the proofs: the steps of replaced tasks that may stand in the queue before the
  first step of the task of a channel, and the state of the queue between the actions on
  one channel: empty, or ending with the first step of the channel's task, which has not
  run yet.
\<close>

definition pending :: "nat \<Rightarrow> step \<Rightarrow> bool" where
  "pending channel s = (s = Dropped channel \<or> s = Handler channel)"

definition loop_inv :: "nat \<Rightarrow> relay_controller \<Rightarrow> bool" where
  "loop_inv channel rc =
     (if relay_tasks rc channel = Some Created
      then \<exists>pre d. ready rc = pre @ [Start channel d] \<and> (\<forall>s \<in> set pre. pending channel s)
      else ready rc = [])"


section \<open>Access logger (\<^verbatim>\<open>src/access_logger.py\<close>)\<close>

text \<open>
  The logger holds the cache, the flag \<^verbatim>\<open>_cache_loaded\<close>, and the file behind
  \<^verbatim>\<open>offline_logs_file\<close>: absent, present with some text, or present but raising when it
  is opened or read.  \<open>logged\<close> lists the levels of the records handed to
  \<^verbatim>\<open>self.logger\<close>, in order.  The cache is whatever \<^verbatim>\<open>json.loads\<close> returned, so it is a
  Python value and not always a list.
\<close>

datatype log_level = Debug | Info | Warning | Error

datatype stored = Absent | Unreadable | Content ustr

text \<open>
  The outcome of opening the file for writing and writing the text: written, or an
  exception that leaves the file in some state (untouched, truncated, partly written).
\<close>

datatype write_outcome = Written | WriteError stored

record access_logger =
  offline_logs_cache :: pyval
  cache_loaded :: bool
  offline_logs_file :: stored
  logged :: "log_level list"

definition AccessLogger :: "stored \<Rightarrow> access_logger" where
  "AccessLogger f =
     \<lparr>offline_logs_cache = PList [], cache_loaded = False, offline_logs_file = f, logged = []\<rparr>"

definition emit :: "log_level \<Rightarrow> access_logger \<Rightarrow> access_logger" where
  "emit l lg = lg\<lparr>logged := logged lg @ [l]\<rparr>"

text \<open>
  \<^verbatim>\<open>str.isspace\<close> and \<^verbatim>\<open>str.strip()\<close>; \<^verbatim>\<open>len\<close>, which raises \<^verbatim>\<open>TypeError\<close> for a value
  without a length; the slice \<^verbatim>\<open>xs[i:]\<close>, where a negative \<open>i\<close> counts from the end.
\<close>

definition py_isspace :: "nat \<Rightarrow> bool" where
  "py_isspace c =
     ((9 \<le> c \<and> c \<le> 13) \<or> (28 \<le> c \<and> c \<le> 32) \<or> c = 133 \<or> c = 160 \<or> c = 5760
      \<or> (8192 \<le> c \<and> c \<le> 8202) \<or> c = 8232 \<or> c = 8233 \<or> c = 8239 \<or> c = 8287
      \<or> c = 12288)"

definition py_strip :: "ustr \<Rightarrow> ustr" where
  "py_strip s = rev (dropWhile py_isspace (rev (dropWhile py_isspace s)))"

definition py_len :: "pyval \<Rightarrow> exn + nat" where
  "py_len v =
     (case v of
        PStr s \<Rightarrow> Inr (length s)
      | PList xs \<Rightarrow> Inr (length xs)
      | PDict d \<Rightarrow> Inr (length d)
      | _ \<Rightarrow> Inl TypeError)"

definition slice_from :: "int \<Rightarrow> 'a list \<Rightarrow> 'a list" where
  "slice_from i xs =
     (if i < 0 then drop (nat (max (int (length xs) + i) 0)) xs else drop (nat i) xs)"

text \<open>
  \<^verbatim>\<open>_persist_offline_logs\<close>: the whole cache is written; an exception is logged and
  swallowed.
\<close>

definition persist_offline_logs :: "write_outcome \<Rightarrow> access_logger \<Rightarrow> access_logger" where
  "persist_offline_logs w lg =
     (case w of
        Written \<Rightarrow> lg\<lparr>offline_logs_file := Content (json_dumps (offline_logs_cache lg))\<rparr>
      | WriteError f \<Rightarrow> emit Error (lg\<lparr>offline_logs_file := f\<rparr>))"

text \<open>
  \<^verbatim>\<open>_load_offline_logs\<close>.  \<open>load_offline_logs_try\<close> is the \<^verbatim>\<open>try\<close> block: it raises when the
  file cannot be read, when \<^verbatim>\<open>json.loads\<close> raises, and when the decoded value has no
  \<^verbatim>\<open>len\<close> for the log message.  The handler empties the cache and marks it loaded.
\<close>

definition load_offline_logs_try :: "access_logger \<Rightarrow> exn + access_logger" where
  "load_offline_logs_try lg =
     (case (case offline_logs_file lg of
              Absent \<Rightarrow> Inr (PList [])
            | Unreadable \<Rightarrow> Inl OSError
            | Content content \<Rightarrow>
                if py_strip content \<noteq> [] then json_loads content else Inr (PList []))
      of
        Inl e \<Rightarrow> Inl e
      | Inr cache \<Rightarrow>
          (case py_len cache of
             Inl e \<Rightarrow> Inl e
           | Inr n \<Rightarrow> Inr (emit Info (lg\<lparr>offline_logs_cache := cache, cache_loaded := True\<rparr>))))"

definition load_offline_logs :: "access_logger \<Rightarrow> exn + access_logger" where
  "load_offline_logs lg =
     (case load_offline_logs_try lg of
        Inr lg' \<Rightarrow> Inr lg'
      | Inl e \<Rightarrow> Inr ((emit Error lg)\<lparr>offline_logs_cache := PList [], cache_loaded := True\<rparr>))"

text \<open>
  \<^verbatim>\<open>_save_offline_log\<close>: append, cut the cache to its last \<^verbatim>\<open>MAX_OFFLINE_LOGS\<close> entries with
  \<^verbatim>\<open>cache[-MAX_OFFLINE_LOGS:]\<close> when it is longer, and persist.  A cache that is not a list
  has no \<^verbatim>\<open>append\<close>: the \<^verbatim>\<open>AttributeError\<close> is logged and swallowed.
\<close>

definition save_offline_log :: "config \<Rightarrow> write_outcome \<Rightarrow> access_logger \<Rightarrow> pyval \<Rightarrow> access_logger" where
  "save_offline_log cfg w lg access_data =
     (case offline_logs_cache lg of
        PList cache \<Rightarrow>
          let lg1 = lg\<lparr>offline_logs_cache := PList (cache @ [access_data])\<rparr>;
              lg2 = (if int (length (cache @ [access_data])) > MAX_OFFLINE_LOGS cfg
                     then emit Warning
                            (lg1\<lparr>offline_logs_cache :=
                                   PList (slice_from (- MAX_OFFLINE_LOGS cfg) (cache @ [access_data]))\<rparr>)
                     else lg1)
          in persist_offline_logs w lg2
      | _ \<Rightarrow> emit Error lg)"

text \<open>
  A run of appends, each with the outcome of its write.
\<close>

fun save_all :: "config \<Rightarrow> access_logger \<Rightarrow> (pyval \<times> write_outcome) list \<Rightarrow> access_logger" where
  "save_all cfg lg [] = lg"
| "save_all cfg lg ((access_data, w) # rest) = save_all cfg (save_offline_log cfg w lg access_data) rest"

text \<open>
  \<^verbatim>\<open>log_access\<close>.  The argument is a dictionary.  The \<^verbatim>\<open>try\<close> block reads the keys
  \<^verbatim>\<open>card_id\<close> (and slices the value), \<^verbatim>\<open>direction\<close> and \<^verbatim>\<open>authorized\<close> for the log message,
  each a \<^verbatim>\<open>KeyError\<close> when missing, and saves the entry when \<^verbatim>\<open>offline_mode\<close> is true.
  The handler saves the entry as well.  The import of \<^verbatim>\<open>backend_client\<close> in the online
  branch finds the module the controller has already imported, and
  \<^verbatim>\<open>_send_realtime_log\<close> does nothing.
\<close>

definition py_truthy :: "pyval \<Rightarrow> bool" where
  "py_truthy v =
     (case v of
        PNone \<Rightarrow> False
      | PBool b \<Rightarrow> b
      | PInt i \<Rightarrow> i \<noteq> 0
      | PFloat s \<Rightarrow> filter (\<lambda>c. 49 \<le> c \<and> c \<le> 57) (takeWhile (\<lambda>c. c \<noteq> 101 \<and> c \<noteq> 69) s) \<noteq> []
                      \<or> filter is_digit s = []
      | PStr s \<Rightarrow> s \<noteq> []
      | PList xs \<Rightarrow> xs \<noteq> []
      | PDict d \<Rightarrow> d \<noteq> [])"

definition py_slice :: "pyval \<Rightarrow> exn + pyval" where
  "py_slice v =
     (case v of
        PStr s \<Rightarrow> Inr (PStr (take 8 s))
      | PList xs \<Rightarrow> Inr (PList (take 8 xs))
      | _ \<Rightarrow> Inl TypeError)"

definition dict_get :: "(ustr \<times> pyval) list \<Rightarrow> ustr \<Rightarrow> pyval \<Rightarrow> pyval" where
  "dict_get d k dflt = (case map_of d k of None \<Rightarrow> dflt | Some v \<Rightarrow> v)"

definition log_access_try :: "config \<Rightarrow> write_outcome \<Rightarrow> access_logger \<Rightarrow> (ustr \<times> pyval) list \<Rightarrow> exn + access_logger" where
  "log_access_try cfg w lg access_data =
     (case map_of access_data (py ''card_id'') of
        None \<Rightarrow> Inl KeyError
      | Some card_id \<Rightarrow>
          (case py_slice card_id of
             Inl e \<Rightarrow> Inl e
           | Inr _ \<Rightarrow>
               if map_of access_data (py ''direction'') = None then Inl KeyError
               else if map_of access_data (py ''authorized'') = None then Inl KeyError
               else if \<not> py_truthy (dict_get access_data (py ''offline_mode'') (PBool False))
               then Inr (emit Info lg)
               else Inr (save_offline_log cfg w (emit Info lg) (PDict access_data))))"

definition log_access :: "config \<Rightarrow> write_outcome \<Rightarrow> ustr \<Rightarrow> access_logger \<Rightarrow> (ustr \<times> pyval) list \<Rightarrow> exn + access_logger" where
  "log_access cfg w now lg access_data0 =
     (let access_data =
            (if map_of access_data0 (py ''timestamp'') = None
             then dict_setitem access_data0 (py ''timestamp'') (PStr now)
             else access_data0)
      in case log_access_try cfg w lg access_data of
           Inr lg' \<Rightarrow> Inr lg'
         | Inl e \<Rightarrow> Inr (save_offline_log cfg w (emit Error lg) (PDict access_data)))"

section \<open>Controller (\<^verbatim>\<open>src/turnstile_controller.py\<close>)\<close>

text \<open>
  The controller owns the connectivity flag, the relay controller and the access logger.
  \<open>trace\<close> records, in order, the calls the controller makes to the logger and to
  \<^verbatim>\<open>_open_turnstile\<close>; it is not a field of the source.
\<close>

datatype call = LogAccess pyval | OpenTurnstile pyval

record controller =
  connection_online :: bool
  relay :: relay_controller
  logger :: access_logger
  trace :: "call list"

text \<open>
  \<^verbatim>\<open>_open_turnstile\<close>.  The result of \<^verbatim>\<open>activate_relay\<close> is discarded by the source, and the
  \<^verbatim>\<open>except Exception\<close> handler has nothing to catch, \<open>activate_relay\<close> returning a value
  on every path.
\<close>

definition open_turnstile :: "config \<Rightarrow> relay_controller \<Rightarrow> pyval \<Rightarrow> relay_controller" where
  "open_turnstile cfg rc direction =
     (if direction = PStr (py ''in'') then snd (activate_relay cfg rc 1 None)
      else if direction = PStr (py ''out'') \<and> is_turnstile cfg then snd (activate_relay cfg rc 2 None)
      else rc)"

text \<open>
  The dictionary built by \<^verbatim>\<open>_handle_card_read\<close> and by the manual-open command, with the
  keys in the order of the source.
\<close>

definition access_log :: "config \<Rightarrow> pyval \<Rightarrow> pyval \<Rightarrow> ustr \<Rightarrow> bool \<Rightarrow> bool \<Rightarrow> (ustr \<times> pyval) list" where
  "access_log cfg card_id direction now auth online =
     [(py ''device_id'', PStr (DEVICE_ID cfg)),
      (py ''card_id'', card_id),
      (py ''direction'', direction),
      (py ''timestamp'', PStr now),
      (py ''authorized'', PBool auth),
      (py ''offline_mode'', PBool (\<not> online))]"

text \<open>
  \<^verbatim>\<open>_handle_card_read\<close>: authorization, the log entry, then the relay if authorized.  An
  exception of \<^verbatim>\<open>log_access\<close> would leave the function before the relay is reached.
\<close>

definition handle_card_read ::
  "config \<Rightarrow> backend \<Rightarrow> ustr list \<Rightarrow> ustr \<Rightarrow> write_outcome \<Rightarrow> controller \<Rightarrow> ustr \<Rightarrow> ustr \<Rightarrow> exn + controller" where
  "handle_card_read cfg be whitelist now w ctl card_id direction =
     (let auth = check_authorization cfg be (connection_online ctl) whitelist card_id direction;
          entry = access_log cfg (PStr card_id) (PStr direction) now auth (connection_online ctl)
      in case log_access cfg w now (logger ctl) entry of
           Inl e \<Rightarrow> Inl e
         | Inr lg \<Rightarrow>
             let ctl1 = ctl\<lparr>logger := lg, trace := trace ctl @ [LogAccess (PDict entry)]\<rparr>
             in if auth
                then Inr (ctl1\<lparr>relay := open_turnstile cfg (relay ctl1) (PStr direction),
                               trace := trace ctl1 @ [OpenTurnstile (PStr direction)]\<rparr>)
                else Inr ctl1)"

text \<open>
  \<^verbatim>\<open>_handle_websocket_command\<close>: a command \<^verbatim>\<open>open_turnstile\<close> is logged as an authorized
  access of the card \<^verbatim>\<open>MANUAL_OPEN\<close> and opens the barrier; the direction defaults to
  \<^verbatim>\<open>in\<close>.  Any exception is logged and swallowed.
\<close>

definition handle_websocket_command ::
  "config \<Rightarrow> ustr \<Rightarrow> write_outcome \<Rightarrow> controller \<Rightarrow> (ustr \<times> pyval) list \<Rightarrow> controller" where
  "handle_websocket_command cfg now w ctl command =
     (if map_of command (py ''action'') = Some (PStr (py ''open_turnstile'')) then
        (let direction = dict_get command (py ''direction'') (PStr (py ''in''));
             entry = access_log cfg (PStr (py ''MANUAL_OPEN'')) direction now True (connection_online ctl)
         in case log_access cfg w now (logger ctl) entry of
              Inl e \<Rightarrow> ctl
            | Inr lg \<Rightarrow>
                ctl\<lparr>logger := lg,
                    relay := open_turnstile cfg (relay ctl) direction,
                    trace := trace ctl @ [LogAccess (PDict entry), OpenTurnstile direction]\<rparr>)
      else ctl)"

section \<open>Updater (\<^verbatim>\<open>src/updater.py\<close>)\<close>

text \<open>
  A directory tree is the list of its files, each a path and its text.  The updater owns
  the flag \<^verbatim>\<open>updating\<close>; \<open>app_dir\<close> is the live application tree (\<open>None\<close> when the
  directory does not exist), \<open>backup_dir\<close> the archives \<^verbatim>\<open>backup_*.tar.gz\<close> with their
  creation times (an archive holds the tree it was made from, or nothing when it was made
  while there was no application directory), and \<open>restart_required\<close> the marker file.
  \<open>backend_calls\<close> records the calls made to the backend, in order; it is not a field
  of the source.  The working files under \<^verbatim>\<open>update_dir\<close> are not modelled.
\<close>

type_synonym tree = "(ustr \<times> ustr) list"

record backup =
  backup_name :: ustr
  ctime :: nat
  archived :: "tree option"

datatype backend_call =
    CheckUpdates
  | ReportStatus "ustr option" ustr
  | DownloadUpdate update_info

record updater =
  updating :: bool
  app_dir :: "tree option"
  backup_dir :: "backup list"
  restart_required :: bool
  backend_calls :: "backend_call list"

text \<open>
  What the updater gets from outside the program: the digest of \<^verbatim>\<open>hashlib.sha256\<close>, the
  clocks, what \<^verbatim>\<open>tarfile\<close> and \<^verbatim>\<open>zipfile\<close> find in a package (nothing when they raise),
  and the exit code of \<^verbatim>\<open>pip install\<close>.  A package holds the exit codes of its scripts
  \<^verbatim>\<open>scripts/pre_update.sh\<close> and \<^verbatim>\<open>scripts/post_update.sh\<close>, when present, and its
  directory \<^verbatim>\<open>app\<close>, when present.
\<close>

record package =
  pre_update :: "nat option"
  app_files :: "tree option"
  post_update :: "nat option"

record update_env =
  sha256_hexdigest :: "bytes \<Rightarrow> ustr"
  loop_time :: nat
  file_time :: nat
  untar :: "bytes \<Rightarrow> package option"
  unzip :: "bytes \<Rightarrow> package option"
  pip_install :: nat

definition called :: "backend_call \<Rightarrow> updater \<Rightarrow> updater" where
  "called c up = up\<lparr>backend_calls := backend_calls up @ [c]\<rparr>"

text \<open>
  \<^verbatim>\<open>get_current_version\<close>: the stripped text of \<^verbatim>\<open>app_dir/VERSION\<close>, or \<^verbatim>\<open>'1.0.0'\<close>.
\<close>

definition get_current_version :: "updater \<Rightarrow> ustr" where
  "get_current_version up =
     (case app_dir up of
        None \<Rightarrow> py ''1.0.0''
      | Some t \<Rightarrow> (case map_of t (py ''VERSION'') of None \<Rightarrow> py ''1.0.0'' | Some txt \<Rightarrow> py_strip txt))"

text \<open>
  \<^verbatim>\<open>_verify_update\<close>: a hash that is given and not empty must equal the digest of the
  data, a size that is given and not zero must equal their length.
\<close>

definition verify_update :: "update_env \<Rightarrow> bytes \<Rightarrow> update_info \<Rightarrow> bool" where
  "verify_update env update_data info =
     (if (case u_hash info of
            None \<Rightarrow> False
          | Some expected_hash \<Rightarrow> expected_hash \<noteq> [] \<and> sha256_hexdigest env update_data \<noteq> expected_hash)
      then False
      else if (case u_size info of
                 None \<Rightarrow> False
               | Some expected_size \<Rightarrow> expected_size \<noteq> 0 \<and> length update_data \<noteq> expected_size)
      then False
      else True)"

text \<open>
  \<^verbatim>\<open>_cleanup_old_backups\<close> keeps the five archives created last;
  \<^verbatim>\<open>max(backups, key=os.path.getctime)\<close> is the first archive with the greatest creation
  time.
\<close>

definition cleanup_old_backups :: "updater \<Rightarrow> updater" where
  "cleanup_old_backups up =
     up\<lparr>backup_dir := take 5 (sort_key (\<lambda>b. - int (ctime b)) (backup_dir up))\<rparr>"

fun latest_backup :: "backup list \<Rightarrow> backup option" where
  "latest_backup [] = None"
| "latest_backup (b # bs) =
     (case latest_backup bs of
        None \<Rightarrow> Some b
      | Some m \<Rightarrow> if ctime b < ctime m then Some m else Some b)"

text \<open>
  \<^verbatim>\<open>_create_backup\<close>: the archive is named after the current version and the loop time and
  replaces an archive of the same name.  Adding a directory that does not exist raises:
  the function then returns \<^verbatim>\<open>None\<close> and leaves the archive it has opened, empty.
\<close>

definition create_backup :: "update_env \<Rightarrow> updater \<Rightarrow> ustr option \<times> updater" where
  "create_backup env up =
     (let name = py ''backup_'' @ get_current_version up @ py ''_'' @ decimal (loop_time env)
                   @ py ''.tar.gz'';
          others = filter (\<lambda>b. backup_name b \<noteq> name) (backup_dir up);
          archive = \<lparr>backup_name = name, ctime = file_time env, archived = app_dir up\<rparr>
      in case app_dir up of
           None \<Rightarrow> (None, up\<lparr>backup_dir := others @ [archive]\<rparr>)
         | Some t \<Rightarrow> (Some name, cleanup_old_backups (up\<lparr>backup_dir := others @ [archive]\<rparr>)))"

text \<open>
  \<^verbatim>\<open>_extract_update\<close>: the format defaults to \<^verbatim>\<open>tar.gz\<close>; a format that is not
  supported and an archive that cannot be read both give \<^verbatim>\<open>None\<close>.
\<close>

definition extract_update :: "update_env \<Rightarrow> bytes \<Rightarrow> update_info \<Rightarrow> package option" where
  "extract_update env update_data info =
     (let file_format = (case u_format info of None \<Rightarrow> py ''tar.gz'' | Some f \<Rightarrow> f)
      in if file_format = py ''tar.gz'' \<or> file_format = py ''tgz'' then untar env update_data
         else if file_format = py ''zip'' then unzip env update_data
         else None)"

text \<open>
  \<^verbatim>\<open>_apply_update\<close>: the pre-update script, the replacement of the application tree by
  the package's \<^verbatim>\<open>app\<close> directory (remove, then copy), the post-update script, and
  \<^verbatim>\<open>pip install\<close> when the tree has a \<^verbatim>\<open>requirements.txt\<close>.  A script or an installation
  that exits with a code other than zero raises.  The result is the exception, if any,
  and the state at that point.
\<close>

definition apply_update :: "update_env \<Rightarrow> package \<Rightarrow> updater \<Rightarrow> exn option \<times> updater" where
  "apply_update env pkg up =
     (if (case pre_update pkg of None \<Rightarrow> False | Some code \<Rightarrow> code \<noteq> 0)
      then (Some (Exception ''Script fallito''), up)
      else
        let up1 = (case app_files pkg of None \<Rightarrow> up | Some files \<Rightarrow> up\<lparr>app_dir := Some files\<rparr>)
        in if (case post_update pkg of None \<Rightarrow> False | Some code \<Rightarrow> code \<noteq> 0)
           then (Some (Exception ''Script fallito''), up1)
           else if (case app_dir up1 of
                      None \<Rightarrow> False
                    | Some t \<Rightarrow> map_of t (py ''requirements.txt'') \<noteq> None \<and> pip_install env \<noteq> 0)
           then (Some (Exception ''pip install fallito''), up1)
           else (None, up1))"

text \<open>Writing one file of a tree: the file keeps its place, a new file comes last.\<close>

fun write_file :: "tree \<Rightarrow> ustr \<Rightarrow> ustr \<Rightarrow> tree" where
  "write_file [] path txt = [(path, txt)]"
| "write_file ((p, t) # fs) path txt =
     (if p = path then (path, txt) # fs else (p, t) # write_file fs path txt)"

text \<open>
  \<^verbatim>\<open>_update_version\<close> opens \<^verbatim>\<open>app_dir/VERSION\<close> for writing, which empties it, and writes
  the version; a missing directory and a missing version raise.
\<close>

definition update_version :: "ustr option \<Rightarrow> updater \<Rightarrow> exn option \<times> updater" where
  "update_version new_version up =
     (case app_dir up of
        None \<Rightarrow> (Some OSError, up)
      | Some t \<Rightarrow>
          (case new_version of
             None \<Rightarrow> (Some TypeError, up\<lparr>app_dir := Some (write_file t (py ''VERSION'') [])\<rparr>)
           | Some v \<Rightarrow> (None, up\<lparr>app_dir := Some (write_file t (py ''VERSION'') v)\<rparr>)))"

definition schedule_restart :: "updater \<Rightarrow> updater" where
  "schedule_restart up = up\<lparr>restart_required := True\<rparr>"

text \<open>
  \<^verbatim>\<open>_restore_backup\<close>: without an archive nothing is done; otherwise the application
  directory is removed and the latest archive is extracted in its place.
\<close>

definition restore_backup :: "updater \<Rightarrow> updater" where
  "restore_backup up =
     (case latest_backup (backup_dir up) of
        None \<Rightarrow> up
      | Some latest \<Rightarrow> up\<lparr>app_dir := archived latest\<rparr>)"

text \<open>
  \<^verbatim>\<open>_perform_update\<close>.  \<open>perform_update_try\<close> is the \<^verbatim>\<open>try\<close> block, with the exception
  that ends it, if any.  The handler reports the failure and restores the latest backup;
  an exception of the report leaves the function.  The \<^verbatim>\<open>finally\<close> clause clears the flag.
\<close>

definition perform_update_try :: "backend \<Rightarrow> update_env \<Rightarrow> update_info \<Rightarrow> updater \<Rightarrow> exn option \<times> updater" where
  "perform_update_try be env info up0 =
     (let up1 = called (ReportStatus (u_id info) (py ''started'')) (up0\<lparr>updating := True\<rparr>) in
      case report_update_status be (u_id info) (py ''started'') of
        Inl e \<Rightarrow> (Some e, up1)
      | Inr _ \<Rightarrow>
     (let up2 = called (DownloadUpdate info) up1 in
      case download_update be info of
        Inl e \<Rightarrow> (Some e, up2)
      | Inr None \<Rightarrow> (Some (Exception ''Download aggiornamento fallito''), up2)
      | Inr (Some update_data) \<Rightarrow>
     (if update_data = [] then (Some (Exception ''Download aggiornamento fallito''), up2)
      else if \<not> verify_update env update_data info
      then (Some (Exception ''Verifica integrita aggiornamento fallita''), up2)
      else
     (case create_backup env up2 of
        (None, up3) \<Rightarrow> (Some (Exception ''Creazione backup fallita''), up3)
      | (Some backup_path, up3) \<Rightarrow>
     (case extract_update env update_data info of
        None \<Rightarrow> (Some (Exception ''Estrazione aggiornamento fallita''), up3)
      | Some extracted \<Rightarrow>
     (case apply_update env extracted up3 of
        (Some e, up4) \<Rightarrow> (Some e, up4)
      | (None, up4) \<Rightarrow>
     (case update_version (u_version info) up4 of
        (Some e, up5) \<Rightarrow> (Some e, up5)
      | (None, up5) \<Rightarrow>
     (let up6 = called (ReportStatus (u_id info) (py ''completed'')) up5 in
      case report_update_status be (u_id info) (py ''completed'') of
        Inl e \<Rightarrow> (Some e, up6)
      | Inr _ \<Rightarrow>
          (None, if (case u_requires_restart info of None \<Rightarrow> True | Some b \<Rightarrow> b)
                 then schedule_restart up6 else up6)))))))))"

definition perform_update :: "backend \<Rightarrow> update_env \<Rightarrow> update_info \<Rightarrow> updater \<Rightarrow> exn option \<times> updater" where
  "perform_update be env info up =
     (case perform_update_try be env info up of
        (None, up1) \<Rightarrow> (None, up1\<lparr>updating := False\<rparr>)
      | (Some e, up1) \<Rightarrow>
          (let up2 = called (ReportStatus (u_id info) (py ''failed'')) up1 in
           case report_update_status be (u_id info) (py ''failed'') of
             Inl e' \<Rightarrow> (Some e', up2\<lparr>updating := False\<rparr>)
           | Inr _ \<Rightarrow> (None, (restore_backup up2)\<lparr>updating := False\<rparr>)))"

text \<open>
  \<^verbatim>\<open>check_and_update\<close>: nothing is done while an update is running or when automatic
  updates are disabled; the backend is asked; without metadata, or with metadata whose
  \<^verbatim>\<open>update_available\<close> is absent or false, the function returns; otherwise the update is
  performed.  The current version is read for the log message only.  Every exception is
  logged and swallowed.
\<close>

definition check_and_update :: "config \<Rightarrow> backend \<Rightarrow> update_env \<Rightarrow> updater \<Rightarrow> updater" where
  "check_and_update cfg be env up =
     (if updating up then up
      else if \<not> AUTO_UPDATE_ENABLED cfg then up
      else
        let up1 = called CheckUpdates up in
        case check_updates be of
          Inl e \<Rightarrow> up1
        | Inr None \<Rightarrow> up1
        | Inr (Some info) \<Rightarrow>
            if \<not> (case u_update_available info of None \<Rightarrow> False | Some b \<Rightarrow> b) then up1
            else snd (perform_update be env info up1))"

definition example_config :: config where
  "example_config =
     \<lparr>DEVICE_ID = py ''turnstile_001'', DEVICE_TYPE = py ''turnstile'',
      ENVIRONMENT = py ''production'', RELAY_CHANNEL_1 = 18, RELAY_OPEN_DURATION = 3000,
      FALLBACK_MODE_ENABLED = True, MAX_OFFLINE_LOGS = 1000, AUTO_UPDATE_ENABLED = True,
      RELAY_CHANNEL_2_env = 19\<rparr>"

definition example_update :: update_info where
  "example_update =
     \<lparr>u_id = Some (py ''42''), u_version = Some (py ''1.0.0''), u_hash = None, u_size = None,
      u_format = None, u_requires_restart = None, u_update_available = Some True\<rparr>"

definition example_backend :: backend where
  "example_backend =
     \<lparr>check_access = (\<lambda>card_id direction.
        if card_id = py ''123456789'' then Inr \<lparr>authorized = Some True\<rparr> else Inl TransportError),
      check_updates = Inr (Some example_update),
      download_update = (\<lambda>info. Inr (Some [80, 75])),
      report_update_status = (\<lambda>update_id status. Inr ())\<rparr>"

text \<open>A door, an access entry and a controller for the examples.\<close>

definition door_config :: config where
  "door_config = example_config\<lparr>DEVICE_TYPE := py ''door''\<rparr>"

definition example_event :: pyval where
  "example_event = PDict (access_log example_config (PStr (py ''123456789'')) (PStr (py ''in''))
      (py ''2024-05-01T08:30:00'') True False)"

definition example_controller :: "config \<Rightarrow> controller" where
  "example_controller cfg =
     \<lparr>connection_online = True, relay = RelayController cfg, logger = AccessLogger Absent, trace = []\<rparr>"

text \<open>
  An environment, application trees and updater states for the examples.  The digest is
  the SHA-256 of the two bytes \<^verbatim>\<open>PK\<close>.
\<close>

definition old_tree :: tree where
  "old_tree = [(py ''VERSION'', py ''1.0.0''), (py ''main.py'', py ''print(1)'')]"

definition current_tree :: tree where
  "current_tree = [(py ''VERSION'', py ''1.1.0''), (py ''main.py'', py ''print(2)'')]"

definition example_env :: update_env where
  "example_env =
     \<lparr>sha256_hexdigest = (\<lambda>d. if d = [80, 75]
         then py ''fcab7fcc2b4cffd9bb45003bfc2e468a04ef6f77ca8200a7341f027631584d25'' else []),
      loop_time = 200, file_time = 200,
      untar = (\<lambda>d. Some \<lparr>pre_update = None,
                          app_files = Some [(py ''VERSION'', py ''0''), (py ''main.py'', py ''print(3)'')],
                          post_update = None\<rparr>),
      unzip = (\<lambda>d. None),
      pip_install = 0\<rparr>"


definition updated_once :: updater where
  "updated_once =
     \<lparr>updating = False, app_dir = Some current_tree,
      backup_dir = [\<lparr>backup_name = py ''backup_1.0.0_100.tar.gz'', ctime = 100, archived = Some old_tree\<rparr>],
      restart_required = False, backend_calls = []\<rparr>"

definition bad_hash_update :: update_info where
  "bad_hash_update = example_update\<lparr>u_version := Some (py ''1.2.0''), u_hash := Some (py ''0000'')\<rparr>"

text \<open>The last \<open>n\<close> elements of a list, for stating what the queue keeps.\<close>

definition last_n :: "nat \<Rightarrow> 'a list \<Rightarrow> 'a list" where
  "last_n n xs = drop (length xs - n) xs"

section \<open>Documents of access events\<close>

text \<open>
  The values that the two directions of \<^verbatim>\<open>json\<close> are compared on: \<^verbatim>\<open>None\<close>, booleans,
  strings, and lists and dictionaries of such values.  The keys of a Python dictionary
  are distinct.  \<open>nesting\<close> counts the calls of the decoder that a value needs.
\<close>

fun storable :: "pyval \<Rightarrow> bool"
  and storable_list :: "pyval list \<Rightarrow> bool"
  and storable_dict :: "(ustr \<times> pyval) list \<Rightarrow> bool" where
  "storable PNone = True"
| "storable (PBool b) = True"
| "storable (PInt i) = False"
| "storable (PFloat s) = False"
| "storable (PStr s) = True"
| "storable (PList xs) = storable_list xs"
| "storable (PDict ms) = (distinct (map fst ms) \<and> storable_dict ms)"
| "storable_list [] = True"
| "storable_list (x # xs) = (storable x \<and> storable_list xs)"
| "storable_dict [] = True"
| "storable_dict ((k, v) # ms) = (storable v \<and> storable_dict ms)"

fun nesting :: "pyval \<Rightarrow> nat"
  and nesting_list :: "pyval list \<Rightarrow> nat"
  and nesting_dict :: "(ustr \<times> pyval) list \<Rightarrow> nat" where
  "nesting (PList xs) = Suc (nesting_list xs)"
| "nesting (PDict ms) = Suc (nesting_dict ms)"
| "nesting v = 1"
| "nesting_list [] = 0"
| "nesting_list (x # xs) = Suc (max (nesting x) (nesting_list xs))"
| "nesting_dict [] = 0"
| "nesting_dict ((k, v) # ms) = Suc (max (nesting v) (nesting_dict ms))"

text \<open>The first character of the text of such a value.\<close>

definition start_char :: "nat \<Rightarrow> bool" where
  "start_char c = (c = 34 \<or> c = 123 \<or> c = 91 \<or> c = 110 \<or> c = 116 \<or> c = 102)"

text \<open>
  An access event as \<^verbatim>\<open>_handle_card_read\<close> and \<^verbatim>\<open>_handle_websocket_command\<close> build it: a
  dictionary whose values are strings and booleans (\<^verbatim>\<open>None\<close> is admitted as well).  The
  keys and their order are left open.
\<close>

definition field_value :: "pyval \<Rightarrow> bool" where
  "field_value v = (case v of PNone \<Rightarrow> True | PBool b \<Rightarrow> True | PStr s \<Rightarrow> True | _ \<Rightarrow> False)"

fun fields :: "(ustr \<times> pyval) list \<Rightarrow> bool" where
  "fields [] = True"
| "fields ((k, v) # ms) = (field_value v \<and> fields ms)"

definition access_event :: "pyval \<Rightarrow> bool" where
  "access_event e = (case e of PDict ms \<Rightarrow> distinct (map fst ms) \<and> fields ms | _ \<Rightarrow> False)"

fun access_events :: "pyval list \<Rightarrow> bool" where
  "access_events [] = True"
| "access_events (e # es) = (access_event e \<and> access_events es)"

text \<open>
  A manual opening with its fields in another order, and a field whose text holds a
  quote, a backslash, a line feed, a bell and two characters outside ASCII.
\<close>

definition manual_event :: pyval where
  "manual_event =
     PDict [(py ''offline_mode'', PBool True), (py ''card_id'', PStr (py ''MANUAL_OPEN'')),
            (py ''direction'', PStr [34, 92, 10, 7, 233, 128512]), (py ''authorized'', PBool True)]"

section \<open>Literals\<close>

text \<open>Two literals of the source are equal as Python strings exactly when they are the same.\<close>

lemma py_eq_iff [simp]: "py a = py b \<longleftrightarrow> a = b"
proof -
  have "inj (of_char :: char \<Rightarrow> nat)" by (rule injI) simp
  then show ?thesis unfolding py_def by (simp add: inj_map_eq_map)
qed

lemma py_Nil_iff [simp]: "py s = [] \<longleftrightarrow> s = []" "[] = py s \<longleftrightarrow> s = []"
  by (auto simp: py_def)


section \<open>Properties of the authorization pipeline\<close>



section \<open>Properties of the relay controller\<close>

lemma known_channel:
  "relay_pins rc = relay_pins (RelayController cfg) \<Longrightarrow> relay_pins rc channel = Some pin \<Longrightarrow> channel = 1 \<or> channel = 2"
  by (auto simp: RelayController_def relay_pins_init_def split: if_splits option.splits)

lemma set_relay_state_known:
  "relay_pins rc ch = Some pin \<Longrightarrow>
     set_relay_state cfg rc ch b =
       Inr (if is_test_mode cfg then rc\<lparr>relay_states := (relay_states rc)(ch \<mapsto> b)\<rparr>
            else rc\<lparr>gpio := gpio rc @ [(pin, b)], relay_states := (relay_states rc)(ch \<mapsto> b)\<rparr>)"
  by (simp add: set_relay_state_def)

lemma cancel_known:
  assumes "relay_pins rc ch = Some pin"
  shows "relay_pins (timed_relay_activation_cancel cfg rc ch) = relay_pins rc"
    and "clock (timed_relay_activation_cancel cfg rc ch) = clock rc"
    and "ready (timed_relay_activation_cancel cfg rc ch) = ready rc"
    and "relay_tasks (timed_relay_activation_cancel cfg rc ch) = relay_tasks rc"
    and "relay_states (timed_relay_activation_cancel cfg rc ch) ch = Some False"
    and "gpio (timed_relay_activation_cancel cfg rc ch) = gpio rc @ (if is_test_mode cfg then [] else [(pin, False)])"
  using assms
  by (simp_all add: timed_relay_activation_cancel_def handler_off_def set_relay_state_known)

lemma start_known:
  assumes "relay_pins rc ch = Some pin"
  shows "relay_pins (timed_relay_activation_start cfg rc ch d) = relay_pins rc"
    and "clock (timed_relay_activation_start cfg rc ch d) = clock rc"
    and "ready (timed_relay_activation_start cfg rc ch d) = ready rc"
    and "relay_states (timed_relay_activation_start cfg rc ch d) ch = Some True"
    and "relay_tasks (timed_relay_activation_start cfg rc ch d) ch = Some (Sleeping (clock rc + d))"
    and "gpio (timed_relay_activation_start cfg rc ch d) = gpio rc @ (if is_test_mode cfg then [] else [(pin, True)])"
  using assms
  by (simp_all add: timed_relay_activation_start_def set_relay_state_known set_task_def)

lemma wake_known:
  assumes "relay_pins rc ch = Some pin"
  shows "relay_pins (timed_relay_activation_wake cfg rc ch) = relay_pins rc"
    and "clock (timed_relay_activation_wake cfg rc ch) = clock rc"
    and "ready (timed_relay_activation_wake cfg rc ch) = ready rc"
    and "relay_states (timed_relay_activation_wake cfg rc ch) ch = Some False"
    and "relay_tasks (timed_relay_activation_wake cfg rc ch) ch = Some Done"
  using assms
  by (simp_all add: timed_relay_activation_wake_def set_relay_state_known set_task_def)

lemma run_pending:
  assumes "relay_pins rc ch = Some pin" "\<forall>s \<in> set pre. pending ch s"
  shows "relay_pins (foldl (run_step cfg) rc pre) = relay_pins rc
       \<and> clock (foldl (run_step cfg) rc pre) = clock rc
       \<and> ready (foldl (run_step cfg) rc pre) = ready rc
       \<and> relay_tasks (foldl (run_step cfg) rc pre) = relay_tasks rc"
  using assms
proof (induction pre arbitrary: rc)
  case Nil
  then show ?case by simp
next
  case (Cons s pre)
  have s: "s = Dropped ch \<or> s = Handler ch" using Cons.prems(2) by (simp add: pending_def)
  have f: "relay_pins (run_step cfg rc s) = relay_pins rc \<and> clock (run_step cfg rc s) = clock rc
      \<and> ready (run_step cfg rc s) = ready rc \<and> relay_tasks (run_step cfg rc s) = relay_tasks rc"
    using s cancel_known [OF Cons.prems(1)] by (auto simp: run_step_def)
  then have "relay_pins (run_step cfg rc s) ch = Some pin" using Cons.prems(1) by simp
  from Cons.IH [OF this] Cons.prems(2) f show ?case by simp
qed

lemma run_ready_created:
  assumes p: "relay_pins rc ch = Some pin"
    and r: "ready rc = pre @ [Start ch d]" "\<forall>s \<in> set pre. pending ch s"
  shows "relay_pins (run_ready cfg rc) = relay_pins rc"
    and "clock (run_ready cfg rc) = clock rc"
    and "ready (run_ready cfg rc) = []"
    and "relay_states (run_ready cfg rc) ch = Some True"
    and "relay_tasks (run_ready cfg rc) ch = Some (Sleeping (clock rc + d))"
proof -
  let ?rc0 = "rc\<lparr>ready := []\<rparr>"
  let ?rc1 = "foldl (run_step cfg) ?rc0 pre"
  have p0: "relay_pins ?rc0 ch = Some pin" using p by simp
  note f = run_pending [OF p0 r(2), of cfg]
  have p1: "relay_pins ?rc1 ch = Some pin" using f p by simp
  have e: "run_ready cfg rc = timed_relay_activation_start cfg ?rc1 ch d"
    by (simp add: run_ready_def r(1) run_step_def)
  show "relay_pins (run_ready cfg rc) = relay_pins rc" using e start_known(1) [OF p1] f by simp
  show "clock (run_ready cfg rc) = clock rc" using e start_known(2) [OF p1] f by simp
  show "ready (run_ready cfg rc) = []" using e start_known(3) [OF p1] f by simp
  show "relay_states (run_ready cfg rc) ch = Some True" using e start_known(4) [OF p1] by simp
  show "relay_tasks (run_ready cfg rc) ch = Some (Sleeping (clock rc + d))"
    using e start_known(5) [OF p1] f by simp
qed

lemma run_ready_idle: "ready rc = [] \<Longrightarrow> run_ready cfg rc = rc"
  by (simp add: run_ready_def)

lemma wake_step_frame:
  "relay_pins (timed_relay_activation_wake cfg rc c) = relay_pins rc"
  "clock (timed_relay_activation_wake cfg rc c) = clock rc"
  "ready (timed_relay_activation_wake cfg rc c) = ready rc"
  "c \<noteq> ch \<Longrightarrow> relay_states (timed_relay_activation_wake cfg rc c) ch = relay_states rc ch"
  "c \<noteq> ch \<Longrightarrow> relay_tasks (timed_relay_activation_wake cfg rc c) ch = relay_tasks rc ch"
  "relay_tasks (timed_relay_activation_wake cfg rc c) c \<noteq> Some Created"
  by (cases "is_test_mode cfg"; cases "relay_pins rc c";
      simp add: timed_relay_activation_wake_def handler_off_def set_task_def set_relay_state_def)+

lemma wake_due_cases:
  "wake_due cfg c rc = rc \<or> wake_due cfg c rc = timed_relay_activation_wake cfg rc c"
  by (cases "relay_tasks rc c"; simp add: wake_due_def run_step_def split: task.splits)

lemma wake_due_frame:
  "relay_pins (wake_due cfg c rc) = relay_pins rc" "clock (wake_due cfg c rc) = clock rc"
  "ready (wake_due cfg c rc) = ready rc"
  using wake_due_cases [of cfg c rc] wake_step_frame(1-3) [of cfg rc c] by auto

lemma wake_due_other:
  "c \<noteq> ch \<Longrightarrow> relay_states (wake_due cfg c rc) ch = relay_states rc ch"
  "c \<noteq> ch \<Longrightarrow> relay_tasks (wake_due cfg c rc) ch = relay_tasks rc ch"
  using wake_due_cases [of cfg c rc] wake_step_frame(4-5) [of c ch cfg rc] by auto

lemma wake_due_no_create:
  "relay_tasks rc ch \<noteq> Some Created \<Longrightarrow> relay_tasks (wake_due cfg c rc) ch \<noteq> Some Created"
  using wake_due_cases [of cfg c rc] wake_step_frame(5) [of c ch cfg rc] wake_step_frame(6) [of cfg rc c]
  by (cases "c = ch") auto

lemma wake_due_same_due:
  assumes "relay_pins rc ch = Some pin" "relay_tasks rc ch = Some (Sleeping w)" "w \<le> clock rc"
  shows "relay_states (wake_due cfg ch rc) ch = Some False"
    and "relay_tasks (wake_due cfg ch rc) ch = Some Done"
  using assms wake_known [OF assms(1)]
  by (simp_all add: wake_due_def run_step_def)

lemma wake_due_same_early:
  "relay_tasks rc ch = Some (Sleeping w) \<Longrightarrow> clock rc < w \<Longrightarrow> wake_due cfg ch rc = rc"
  by (auto simp: wake_due_def)

lemma wake_due_not_sleeping:
  "\<forall>w. relay_tasks rc ch \<noteq> Some (Sleeping w) \<Longrightarrow> wake_due cfg ch rc = rc"
  by (auto simp: wake_due_def split: option.splits task.splits)

lemma wake_both:
  assumes k: "ch = 1 \<or> ch = 2"
  shows "relay_pins rc ch = Some pin \<Longrightarrow> relay_tasks rc ch = Some (Sleeping w) \<Longrightarrow> w \<le> clock rc \<Longrightarrow>
           relay_states (wake_due cfg 2 (wake_due cfg 1 rc)) ch = Some False
         \<and> relay_tasks (wake_due cfg 2 (wake_due cfg 1 rc)) ch = Some Done"
    and "relay_tasks rc ch = Some (Sleeping w) \<Longrightarrow> clock rc < w \<Longrightarrow>
           relay_states (wake_due cfg 2 (wake_due cfg 1 rc)) ch = relay_states rc ch
         \<and> relay_tasks (wake_due cfg 2 (wake_due cfg 1 rc)) ch = relay_tasks rc ch"
proof -
  show "relay_states (wake_due cfg 2 (wake_due cfg 1 rc)) ch = Some False
         \<and> relay_tasks (wake_due cfg 2 (wake_due cfg 1 rc)) ch = Some Done"
    if a: "relay_pins rc ch = Some pin" "relay_tasks rc ch = Some (Sleeping w)" "w \<le> clock rc"
  proof (cases "ch = 1")
    case True
    then show ?thesis using wake_due_same_due [OF a, of cfg] by (simp add: wake_due_other)
  next
    case False
    then have c: "ch = 2" using k by simp
    have "relay_pins (wake_due cfg 1 rc) ch = Some pin" "relay_tasks (wake_due cfg 1 rc) ch = Some (Sleeping w)"
      "w \<le> clock (wake_due cfg 1 rc)"
      using a c by (simp_all add: wake_due_frame wake_due_other)
    from wake_due_same_due [OF this, of cfg] c show ?thesis by simp
  qed
  show "relay_states (wake_due cfg 2 (wake_due cfg 1 rc)) ch = relay_states rc ch
         \<and> relay_tasks (wake_due cfg 2 (wake_due cfg 1 rc)) ch = relay_tasks rc ch"
    if a: "relay_tasks rc ch = Some (Sleeping w)" "clock rc < w"
  proof (cases "ch = 1")
    case True
    then show ?thesis using wake_due_same_early [OF a, of cfg] by (simp add: wake_due_other)
  next
    case False
    then have c: "ch = 2" using k by simp
    have "relay_tasks (wake_due cfg 1 rc) ch = Some (Sleeping w)" "clock (wake_due cfg 1 rc) < w"
      using a c by (simp_all add: wake_due_frame wake_due_other)
    from wake_due_same_early [OF this, of cfg] c show ?thesis by (simp add: wake_due_other)
  qed
qed

lemma drop_start_pending: "pending ch s \<Longrightarrow> drop_start ch s = s"
  by (auto simp: pending_def drop_start_def)

lemma begin_known:
  assumes p: "relay_pins rc ch = Some pin" and i: "loop_inv ch rc"
  shows "fst (activate_relay_begin cfg rc ch (Some d)) = None"
    and "relay_pins (snd (activate_relay_begin cfg rc ch (Some d))) = relay_pins rc"
    and "clock (snd (activate_relay_begin cfg rc ch (Some d))) = clock rc"
    and "relay_tasks (snd (activate_relay_begin cfg rc ch (Some d))) ch = Some Created"
    and "\<exists>pre. ready (snd (activate_relay_begin cfg rc ch (Some d))) = pre @ [Start ch d]
            \<and> (\<forall>s \<in> set pre. pending ch s)"
proof -
  let ?rc1 = "case relay_tasks rc ch of
                Some t \<Rightarrow> if \<not> task_done t then cancel_task rc ch else rc
              | None \<Rightarrow> rc"
  have e: "activate_relay_begin cfg rc ch (Some d)
             = (None, (set_task ?rc1 ch Created)\<lparr>ready := ready ?rc1 @ [Start ch d]\<rparr>)"
    using p by (simp add: activate_relay_begin_def Let_def)
  have f: "relay_pins ?rc1 = relay_pins rc \<and> clock ?rc1 = clock rc"
    by (auto simp: cancel_task_def split: option.splits task.splits)
  have r: "\<forall>s \<in> set (ready ?rc1). pending ch s"
  proof (cases "relay_tasks rc ch = Some Created")
    case True
    then obtain pre d0 where q: "ready rc = pre @ [Start ch d0]" "\<forall>s \<in> set pre. pending ch s"
      using i by (auto simp: loop_inv_def)
    have "map (drop_start ch) pre = pre" using q(2) by (simp add: drop_start_pending map_idI)
    then have "ready ?rc1 = pre @ [Dropped ch]"
      using True q(1) by (simp add: task_done_def cancel_task_def drop_start_def)
    then show ?thesis using q(2) by (simp add: pending_def)
  next
    case False
    then have "ready rc = []" using i by (simp add: loop_inv_def)
    then show ?thesis
      by (auto simp: cancel_task_def pending_def split: option.splits task.splits)
  qed
  show "fst (activate_relay_begin cfg rc ch (Some d)) = None" using e by simp
  show "relay_pins (snd (activate_relay_begin cfg rc ch (Some d))) = relay_pins rc"
    using e f by (simp add: set_task_def)
  show "clock (snd (activate_relay_begin cfg rc ch (Some d))) = clock rc"
    using e f by (simp add: set_task_def)
  show "relay_tasks (snd (activate_relay_begin cfg rc ch (Some d))) ch = Some Created"
    using e by (simp add: set_task_def)
  show "\<exists>pre. ready (snd (activate_relay_begin cfg rc ch (Some d))) = pre @ [Start ch d]
            \<and> (\<forall>s \<in> set pre. pending ch s)"
    using e r by (simp add: set_task_def)
qed

lemma begin_inv:
  assumes "relay_pins rc ch = Some pin" "loop_inv ch rc"
  shows "loop_inv ch (snd (activate_relay_begin cfg rc ch (Some d)))"
  using begin_known(4,5) [OF assms, of cfg d] by (auto simp: loop_inv_def)

lemma elapse_frame:
  assumes p: "relay_pins rc ch = Some pin" and i: "loop_inv ch rc"
  shows "relay_pins (elapse cfg dt rc) = relay_pins rc"
    and "clock (elapse cfg dt rc) = clock rc + dt"
    and "loop_inv ch (elapse cfg dt rc)"
proof -
  let ?rc1 = "run_ready cfg rc"
  have a: "relay_pins ?rc1 = relay_pins rc \<and> clock ?rc1 = clock rc \<and> ready ?rc1 = []
      \<and> relay_tasks ?rc1 ch \<noteq> Some Created"
  proof (cases "relay_tasks rc ch = Some Created")
    case True
    then obtain pre d0 where q: "ready rc = pre @ [Start ch d0]" "\<forall>s \<in> set pre. pending ch s"
      using i by (auto simp: loop_inv_def)
    from run_ready_created [OF p q, of cfg] show ?thesis by simp
  next
    case False
    then have "ready rc = []" using i by (simp add: loop_inv_def)
    then show ?thesis using False by (simp add: run_ready_idle)
  qed
  show "relay_pins (elapse cfg dt rc) = relay_pins rc" using a by (simp add: elapse_def Let_def wake_due_frame)
  show "clock (elapse cfg dt rc) = clock rc + dt" using a by (simp add: elapse_def Let_def wake_due_frame)
  have "relay_tasks (?rc1\<lparr>clock := clock ?rc1 + dt\<rparr>) ch \<noteq> Some Created" using a by simp
  then have "relay_tasks (elapse cfg dt rc) ch \<noteq> Some Created"
    unfolding elapse_def Let_def by (intro wake_due_no_create)
  moreover have "ready (elapse cfg dt rc) = []" using a by (simp add: elapse_def Let_def wake_due_frame)
  ultimately show "loop_inv ch (elapse cfg dt rc)" by (simp add: loop_inv_def)
qed

lemma activations_inv:
  assumes "relay_pins rc ch = Some pin" "loop_inv ch rc"
  shows "relay_pins (activations cfg ch rc acts) = relay_pins rc \<and> loop_inv ch (activations cfg ch rc acts)"
  using assms
proof (induction acts arbitrary: rc)
  case Nil
  then show ?case by simp
next
  case (Cons a acts)
  show ?case
  proof (cases a)
    case (Activate d)
    let ?rc = "snd (activate_relay_begin cfg rc ch (Some d))"
    have "relay_pins ?rc ch = Some pin" "loop_inv ch ?rc"
      using begin_known(2) [OF Cons.prems, of cfg d] begin_inv [OF Cons.prems, of cfg d] Cons.prems(1)
      by simp_all
    from Cons.IH [OF this] show ?thesis
      using Activate begin_known(2) [OF Cons.prems, of cfg d] by simp
  next
    case (Pass dt)
    have "relay_pins (elapse cfg dt rc) ch = Some pin" "loop_inv ch (elapse cfg dt rc)"
      using elapse_frame [OF Cons.prems, of cfg dt] Cons.prems(1) by simp_all
    from Cons.IH [OF this] show ?thesis
      using Pass elapse_frame(1) [OF Cons.prems, of cfg dt] by simp
  qed
qed

lemma activations_append:
  "activations cfg ch rc (xs @ ys) = activations cfg ch (activations cfg ch rc xs) ys"
  by (induction xs arbitrary: rc rule: activations.induct[where ?a0.0 = cfg and ?a1.0 = ch]) simp_all

lemma elapse_after_call:
  assumes p: "relay_pins rc ch = Some pin" and k: "ch = 1 \<or> ch = 2"
    and r: "ready rc = pre @ [Start ch d]" "\<forall>s \<in> set pre. pending ch s"
  shows "dt < d \<Longrightarrow> relay_states (elapse cfg dt rc) ch = Some True
            \<and> relay_tasks (elapse cfg dt rc) ch = Some (Sleeping (clock rc + d))"
    and "d \<le> dt \<Longrightarrow> relay_states (elapse cfg dt rc) ch = Some False
            \<and> relay_tasks (elapse cfg dt rc) ch = Some Done"
proof -
  let ?rc1 = "run_ready cfg rc"
  let ?rc2 = "?rc1\<lparr>clock := clock ?rc1 + dt\<rparr>"
  note a = run_ready_created [OF p r, of cfg]
  have p2: "relay_pins ?rc2 ch = Some pin" and t2: "relay_tasks ?rc2 ch = Some (Sleeping (clock rc + d))"
    and s2: "relay_states ?rc2 ch = Some True" and c2: "clock ?rc2 = clock rc + dt"
    using a p by simp_all
  show "relay_states (elapse cfg dt rc) ch = Some True
            \<and> relay_tasks (elapse cfg dt rc) ch = Some (Sleeping (clock rc + d))" if "dt < d"
  proof -
    have "clock ?rc2 < clock rc + d" using c2 that by simp
    from wake_both(2) [OF k t2 this, of cfg] show ?thesis using s2 t2 by (simp add: elapse_def Let_def)
  qed
  show "relay_states (elapse cfg dt rc) ch = Some False
            \<and> relay_tasks (elapse cfg dt rc) ch = Some Done" if "d \<le> dt"
  proof -
    have "clock rc + d \<le> clock ?rc2" using c2 that by simp
    from wake_both(1) [OF k p2 t2 this, of cfg] show ?thesis by (simp add: elapse_def Let_def)
  qed
qed

text \<open>
  C1.  Start from a controller whose loop has nothing scheduled.  After any sequence of
  \<^verbatim>\<open>activate_relay\<close> calls on one known channel, with the loop running and time passing
  between them or not, and a last call \<^verbatim>\<open>activate_relay(channel, d)\<close>: once the loop runs,
  the channel is energized with one sleeping task whose sleep ends \<open>d\<close> after that
  call, it stays energized before that time, and it is de-energized, the task done, at
  every time from then on.  A call that finds the channel's task sleeping schedules that
  task's cancellation handler, which de-energizes the channel, before the first step of
  the new task; a call that finds the task not yet started has it dropped from the loop
  without its body being entered.  The new sleep lasts \<open>d\<close> from the call, whatever
  the cancelled task's wake-up time was.
\<close>

theorem activations_return_to_safe:
  assumes pins: "relay_pins rc = relay_pins (RelayController cfg)"
    and ch: "relay_pins rc channel = Some pin"
    and quiet: "ready rc = []" "relay_tasks rc channel \<noteq> Some Created"
  shows "(let rc' = activations cfg channel rc (acts @ [Activate d]) in
            (\<forall>dt. dt < d \<longrightarrow>
                relay_states (elapse cfg dt rc') channel = Some True
              \<and> relay_tasks (elapse cfg dt rc') channel = Some (Sleeping (clock rc' + d)))
          \<and> (\<forall>dt. d \<le> dt \<longrightarrow>
                relay_states (elapse cfg dt rc') channel = Some False
              \<and> relay_tasks (elapse cfg dt rc') channel = Some Done))
       \<and> (\<forall>rc0 w d0. relay_pins rc0 = relay_pins rc \<and> relay_tasks rc0 channel = Some (Sleeping w) \<longrightarrow>
             ready (snd (activate_relay_begin cfg rc0 channel (Some d0)))
               = ready rc0 @ [Handler channel, Start channel d0]
           \<and> relay_states (run_step cfg rc0 (Handler channel)) channel = Some False)
       \<and> (\<forall>rc0 d0. relay_pins rc0 = relay_pins rc \<and> relay_tasks rc0 channel = Some Created \<longrightarrow>
             ready (snd (activate_relay_begin cfg rc0 channel (Some d0)))
               = map (drop_start channel) (ready rc0) @ [Start channel d0])"
proof -
  let ?before = "activations cfg channel rc acts"
  let ?after = "snd (activate_relay_begin cfg ?before channel (Some d))"
  have i: "loop_inv channel rc" using quiet by (simp add: loop_inv_def)
  have k: "channel = 1 \<or> channel = 2" using known_channel [OF pins ch] .
  note a = activations_inv [OF ch i, of cfg acts]
  have p0: "relay_pins ?before channel = Some pin" and i0: "loop_inv channel ?before" using a ch by simp_all
  note b = begin_known [OF p0 i0, of cfg d]
  have e: "activations cfg channel rc (acts @ [Activate d]) = ?after" by (simp add: activations_append)
  have p: "relay_pins ?after channel = Some pin" using b(2) p0 by simp
  obtain pre where r: "ready ?after = pre @ [Start channel d]" "\<forall>s \<in> set pre. pending channel s"
    using b(5) by blast
  note f = elapse_after_call [OF p k r, of _ cfg]
  have first: "(let rc' = activations cfg channel rc (acts @ [Activate d]) in
            (\<forall>dt. dt < d \<longrightarrow>
                relay_states (elapse cfg dt rc') channel = Some True
              \<and> relay_tasks (elapse cfg dt rc') channel = Some (Sleeping (clock rc' + d)))
          \<and> (\<forall>dt. d \<le> dt \<longrightarrow>
                relay_states (elapse cfg dt rc') channel = Some False
              \<and> relay_tasks (elapse cfg dt rc') channel = Some Done))"
    unfolding Let_def e using f by blast
  have second: "ready (snd (activate_relay_begin cfg rc0 channel (Some d0)))
               = ready rc0 @ [Handler channel, Start channel d0]
           \<and> relay_states (run_step cfg rc0 (Handler channel)) channel = Some False"
    if "relay_pins rc0 = relay_pins rc" "relay_tasks rc0 channel = Some (Sleeping w)" for rc0 w d0
  proof -
    have q: "relay_pins rc0 channel = Some pin" using that ch by simp
    show ?thesis
      using q that(2) cancel_known(5) [OF q, of cfg]
      by (simp add: activate_relay_begin_def Let_def task_done_def cancel_task_def set_task_def run_step_def)
  qed
  have third: "ready (snd (activate_relay_begin cfg rc0 channel (Some d0)))
               = map (drop_start channel) (ready rc0) @ [Start channel d0]"
    if "relay_pins rc0 = relay_pins rc" "relay_tasks rc0 channel = Some Created" for rc0 d0
  proof -
    have q: "relay_pins rc0 channel = Some pin" using that ch by simp
    show ?thesis
      using q that(2)
      by (simp add: activate_relay_begin_def Let_def task_done_def cancel_task_def set_task_def)
  qed
  show ?thesis using first second third by blast
qed

lemmas relay_eval =
  RelayController_def relay_pins_init_def example_config_def elapse_def wake_due_def run_ready_def
  run_step_def activate_relay_begin_def cancel_task_def drop_start_def
  timed_relay_activation_start_def timed_relay_activation_cancel_def timed_relay_activation_wake_def
  handler_off_def set_relay_state_def set_task_def task_done_def is_test_mode_def is_turnstile_def
  RELAY_CHANNEL_2_def Let_def

text \<open>
  Two calls on channel 1 of the default turnstile.  With the second call one second after
  the first, the relay is driven high, low by the cancellation handler, high again, and
  low three seconds after the second call and not before.  With the second call before
  the loop has run, the first task never starts and the relay is driven high once.
\<close>

theorem activations_return_to_safe_witness:
  "relay_pins (RelayController example_config) 1 = Some 18
   \<and> relay_states (elapse example_config 2999
         (activations example_config 1 (RelayController example_config)
            [Activate 3000, Pass 1000, Activate 3000])) 1 = Some True
   \<and> relay_states (elapse example_config 3000
         (activations example_config 1 (RelayController example_config)
            [Activate 3000, Pass 1000, Activate 3000])) 1 = Some False
   \<and> gpio (elapse example_config 3000
         (activations example_config 1 (RelayController example_config)
            [Activate 3000, Pass 1000, Activate 3000]))
        = [(18, True), (18, False), (18, True), (18, False)]
   \<and> relay_states (elapse example_config 3000
         (activations example_config 1 (RelayController example_config)
            [Activate 3000, Activate 3000])) 1 = Some False
   \<and> gpio (elapse example_config 3000
         (activations example_config 1 (RelayController example_config)
            [Activate 3000, Activate 3000]))
        = [(18, True), (18, False)]"
proof -
  have p: "relay_pins (RelayController example_config) 1 = Some 18"
    by (simp add: RelayController_def relay_pins_init_def example_config_def)
  have q: "ready (RelayController example_config) = []"
    "relay_tasks (RelayController example_config) 1 \<noteq> Some Created"
    by (simp_all add: RelayController_def)
  define a where "a = activations example_config 1 (RelayController example_config)
            ([Activate 3000, Pass 1000] @ [Activate 3000])"
  define b where "b = activations example_config 1 (RelayController example_config)
            ([Activate 3000] @ [Activate 3000])"
  have ta: "relay_states (elapse example_config 2999 a) 1 = Some True
      \<and> relay_states (elapse example_config 3000 a) 1 = Some False"
    using activations_return_to_safe [OF refl p q, where acts = "[Activate 3000, Pass 1000]" and d = 3000]
    unfolding Let_def a_def [symmetric] by simp
  have tb: "relay_states (elapse example_config 3000 b) 1 = Some False"
    using activations_return_to_safe [OF refl p q, where acts = "[Activate 3000]" and d = 3000]
    unfolding Let_def b_def [symmetric] by simp
  have ga: "gpio (elapse example_config 3000 a) = [(18, True), (18, False), (18, True), (18, False)]"
    unfolding a_def by (simp add: relay_eval)
  have gb: "gpio (elapse example_config 3000 b) = [(18, True), (18, False)]"
    unfolding b_def by (simp add: relay_eval)
  show ?thesis using p ta tb ga gb unfolding a_def b_def by simp
qed

lemma example_activate_in:
  "gpio (snd (activate_relay example_config (RelayController example_config) 1 None))
     = [(18, True), (18, False)]"
  "relay_states (snd (activate_relay example_config (RelayController example_config) 1 None)) 1
     = Some False"
  "fst (activate_relay example_config (RelayController example_config) 1 None)"
  by (simp_all add: activate_relay_def relay_eval)

section \<open>Properties of the controller\<close>

lemma log_access_returns: "\<exists>lg'. log_access cfg w now lg d = Inr lg'"
  by (simp add: log_access_def Let_def split: sum.splits)

lemma activate_relay_unknown: "relay_pins rc channel = None \<Longrightarrow> activate_relay cfg rc channel d = (False, rc)"
  by (simp add: activate_relay_def activate_relay_begin_def)

lemma door_pins: "DEVICE_TYPE cfg = py ''door'' \<Longrightarrow> relay_pins (RelayController cfg) 2 = None \<and> \<not> is_turnstile cfg"
  by (simp add: RelayController_def relay_pins_init_def is_turnstile_def RELAY_CHANNEL_2_def)

lemma handle_card_read_result:
  "\<exists>lg. log_access cfg w now (logger ctl)
            (access_log cfg (PStr card_id) (PStr direction) now
               (check_authorization cfg be (connection_online ctl) whitelist card_id direction)
               (connection_online ctl)) = Inr lg
      \<and> handle_card_read cfg be whitelist now w ctl card_id direction =
          Inr (ctl\<lparr>logger := lg,
                   relay := (if check_authorization cfg be (connection_online ctl) whitelist card_id direction
                             then open_turnstile cfg (relay ctl) (PStr direction) else relay ctl),
                   trace := trace ctl
                     @ LogAccess (PDict (access_log cfg (PStr card_id) (PStr direction) now
                          (check_authorization cfg be (connection_online ctl) whitelist card_id direction)
                          (connection_online ctl)))
                     # (if check_authorization cfg be (connection_online ctl) whitelist card_id direction
                        then [OpenTurnstile (PStr direction)] else [])\<rparr>)"
proof -
  let ?auth = "check_authorization cfg be (connection_online ctl) whitelist card_id direction"
  let ?entry = "access_log cfg (PStr card_id) (PStr direction) now ?auth (connection_online ctl)"
  obtain lg where lg: "log_access cfg w now (logger ctl) ?entry = Inr lg"
    using log_access_returns by blast
  then show ?thesis by (simp add: handle_card_read_def Let_def)
qed

text \<open>
  C10.  On a device configured as a door, channel 2 is not in the channel map;
  \<^verbatim>\<open>activate_relay(2)\<close> returns \<^verbatim>\<open>False\<close> and leaves the relay controller as it was;
  \<^verbatim>\<open>_open_turnstile('out')\<close> leaves it as it was; and so do a badge read and a manual
  open command for direction \<^verbatim>\<open>out\<close>.
\<close>

theorem door_out_is_noop:
  assumes "DEVICE_TYPE cfg = py ''door''"
    and "relay_pins (relay ctl) = relay_pins (RelayController cfg)"
  shows "relay_pins (relay ctl) 2 = None
       \<and> activate_relay cfg (relay ctl) 2 d = (False, relay ctl)
       \<and> open_turnstile cfg (relay ctl) (PStr (py ''out'')) = relay ctl
       \<and> (\<exists>ctl'. handle_card_read cfg be whitelist now w ctl card_id (py ''out'') = Inr ctl'
                  \<and> relay ctl' = relay ctl)
       \<and> relay (handle_websocket_command cfg now w ctl
                  [(py ''action'', PStr (py ''open_turnstile'')), (py ''direction'', PStr (py ''out''))])
           = relay ctl"
proof -
  have p: "relay_pins (relay ctl) 2 = None" and t: "\<not> is_turnstile cfg"
    using door_pins[OF assms(1)] assms(2) by simp_all
  have o: "open_turnstile cfg rc (PStr (py ''out'')) = rc" for rc
    using t by (simp add: open_turnstile_def)
  have h: "\<exists>ctl'. handle_card_read cfg be whitelist now w ctl card_id (py ''out'') = Inr ctl' \<and> relay ctl' = relay ctl"
    using handle_card_read_result[of cfg w now ctl card_id "py ''out''" be whitelist]
    by (auto simp: o)
  have ws: "relay (handle_websocket_command cfg now w ctl
                  [(py ''action'', PStr (py ''open_turnstile'')), (py ''direction'', PStr (py ''out''))])
           = relay ctl"
    by (simp add: handle_websocket_command_def Let_def dict_get_def o split: sum.splits)
  show ?thesis using p activate_relay_unknown[OF p] o h ws by simp
qed

theorem door_out_is_noop_witness:
  "DEVICE_TYPE door_config = py ''door''
   \<and> activate_relay door_config (RelayController door_config) 2 None = (False, RelayController door_config)
   \<and> open_turnstile door_config (RelayController door_config) (PStr (py ''out'')) = RelayController door_config
   \<and> relay (handle_websocket_command door_config (py ''2024-05-01T08:30:00'') Written (example_controller door_config)
                  [(py ''action'', PStr (py ''open_turnstile'')), (py ''direction'', PStr (py ''out''))])
           = RelayController door_config"
proof -
  have a: "DEVICE_TYPE door_config = py ''door''" by (simp add: door_config_def)
  have b: "relay_pins (relay (example_controller door_config)) = relay_pins (RelayController door_config)"
    by (simp add: example_controller_def)
  show ?thesis
    using a door_out_is_noop[OF a b, of None example_backend "[]" "py ''2024-05-01T08:30:00''" Written "py ''123456789''"]
    by (simp add: example_controller_def)
qed


text \<open>
  C3.  For every badge read, \<^verbatim>\<open>_handle_card_read\<close> returns normally, whatever the outcome
  of writing the queue file.  It hands one entry to the access logger, carrying the card,
  the direction, the authorization outcome and the negated connectivity flag; the call of
  \<^verbatim>\<open>_open_turnstile\<close> comes after it in the trace and is made exactly when the read is
  authorized.  \<^verbatim>\<open>log_access\<close> returns normally for every dictionary.
\<close>

theorem handle_card_read_logs_then_opens:
  "(let auth = check_authorization cfg be (connection_online ctl) whitelist card_id direction;
        entry = access_log cfg (PStr card_id) (PStr direction) now auth (connection_online ctl)
    in map_of entry (py ''card_id'') = Some (PStr card_id)
     \<and> map_of entry (py ''direction'') = Some (PStr direction)
     \<and> map_of entry (py ''authorized'') = Some (PBool auth)
     \<and> map_of entry (py ''offline_mode'') = Some (PBool (\<not> connection_online ctl))
     \<and> (\<exists>lg. log_access cfg w now (logger ctl) entry = Inr lg
           \<and> handle_card_read cfg be whitelist now w ctl card_id direction =
               Inr (ctl\<lparr>logger := lg,
                        relay := (if auth then open_turnstile cfg (relay ctl) (PStr direction) else relay ctl),
                        trace := trace ctl @ LogAccess (PDict entry)
                                   # (if auth then [OpenTurnstile (PStr direction)] else [])\<rparr>)))
   \<and> (\<exists>lg'. log_access cfg w now lg access_data = Inr lg')"
proof -
  let ?auth = "check_authorization cfg be (connection_online ctl) whitelist card_id direction"
  let ?entry = "access_log cfg (PStr card_id) (PStr direction) now ?auth (connection_online ctl)"
  have f: "map_of ?entry (py ''card_id'') = Some (PStr card_id)"
     "map_of ?entry (py ''direction'') = Some (PStr direction)"
     "map_of ?entry (py ''authorized'') = Some (PBool ?auth)"
     "map_of ?entry (py ''offline_mode'') = Some (PBool (\<not> connection_online ctl))"
    by (simp_all add: access_log_def)
  show ?thesis unfolding Let_def
    using f handle_card_read_result[of cfg w now ctl card_id direction be whitelist] log_access_returns
    by simp
qed

text \<open>
  An authorized read while online, and an authorized read while offline whose write to
  the queue file fails: both drive the relay of channel 1.
\<close>

lemma example_authorized:
  "check_authorization example_config example_backend True [] (py ''123456789'') (py ''in'')"
  "check_authorization example_config example_backend False [py ''123456789''] (py ''123456789'') (py ''in'')"
  by (simp_all add: check_authorization_def authorization_try_def example_backend_def
        response_get_authorized_def example_config_def)

lemma example_open_in:
  "gpio (open_turnstile example_config (RelayController example_config) (PStr (py ''in'')))
     = [(18, True), (18, False)]"
  "relay_states (open_turnstile example_config (RelayController example_config) (PStr (py ''in''))) 1
     = Some False"
  using example_activate_in by (simp_all add: open_turnstile_def)

theorem handle_card_read_logs_then_opens_witness:
  "(\<exists>ctl'. handle_card_read example_config example_backend [] (py ''2024-05-01T08:30:00'') Written
             (example_controller example_config) (py ''123456789'') (py ''in'') = Inr ctl'
       \<and> trace ctl' =
            [LogAccess (PDict (access_log example_config (PStr (py ''123456789'')) (PStr (py ''in''))
                                 (py ''2024-05-01T08:30:00'') True True)),
             OpenTurnstile (PStr (py ''in''))]
       \<and> gpio (relay ctl') = [(18, True), (18, False)])
   \<and> (\<exists>ctl'. handle_card_read example_config example_backend [py ''123456789''] (py ''2024-05-01T08:30:00'')
             (WriteError Absent)
             ((example_controller example_config)\<lparr>connection_online := False\<rparr>)
             (py ''123456789'') (py ''in'') = Inr ctl'
       \<and> trace ctl' = [LogAccess example_event, OpenTurnstile (PStr (py ''in''))]
       \<and> gpio (relay ctl') = [(18, True), (18, False)])"
proof -
  note a = handle_card_read_logs_then_opens
      [where cfg = example_config and be = example_backend and whitelist = "[]"
         and ctl = "example_controller example_config" and card_id = "py ''123456789''"
         and direction = "py ''in''" and now = "py ''2024-05-01T08:30:00''" and w = Written
         and lg = "AccessLogger Absent" and access_data = "[]",
       unfolded Let_def]
  note b = handle_card_read_logs_then_opens
      [where cfg = example_config and be = example_backend and whitelist = "[py ''123456789'']"
         and ctl = "(example_controller example_config)\<lparr>connection_online := False\<rparr>"
         and card_id = "py ''123456789''"
         and direction = "py ''in''" and now = "py ''2024-05-01T08:30:00''" and w = "WriteError Absent"
         and lg = "AccessLogger Absent" and access_data = "[]",
       unfolded Let_def]
  have c: "connection_online (example_controller example_config)"
    "relay (example_controller example_config) = RelayController example_config"
    "trace (example_controller example_config) = []"
    by (simp_all add: example_controller_def)
  from a have 1: "\<exists>ctl'. handle_card_read example_config example_backend [] (py ''2024-05-01T08:30:00'') Written
             (example_controller example_config) (py ''123456789'') (py ''in'') = Inr ctl'
       \<and> trace ctl' =
            [LogAccess (PDict (access_log example_config (PStr (py ''123456789'')) (PStr (py ''in''))
                                 (py ''2024-05-01T08:30:00'') True True)),
             OpenTurnstile (PStr (py ''in''))]
       \<and> gpio (relay ctl') = [(18, True), (18, False)]"
    using c example_authorized(1) example_open_in(1) by auto
  from b have 2: "\<exists>ctl'. handle_card_read example_config example_backend [py ''123456789''] (py ''2024-05-01T08:30:00'')
             (WriteError Absent)
             ((example_controller example_config)\<lparr>connection_online := False\<rparr>)
             (py ''123456789'') (py ''in'') = Inr ctl'
       \<and> trace ctl' = [LogAccess example_event, OpenTurnstile (PStr (py ''in''))]
       \<and> gpio (relay ctl') = [(18, True), (18, False)]"
    using c example_authorized(2) example_open_in(1) by (auto simp: example_event_def)
  show ?thesis using 1 2 by blast
qed

section \<open>Properties of the access logger\<close>

lemma slice_from_neg: "0 < m \<Longrightarrow> slice_from (- m) xs = drop (length xs - nat m) xs"
  by (auto simp: slice_from_def max_def nat_diff_distrib' )

lemma save_offline_log_cache:
  assumes "offline_logs_cache lg = PList q" "0 < MAX_OFFLINE_LOGS cfg"
  shows "offline_logs_cache (save_offline_log cfg w lg e) = PList (last_n (nat (MAX_OFFLINE_LOGS cfg)) (q @ [e]))"
  using assms
  by (cases w) (auto simp: save_offline_log_def persist_offline_logs_def emit_def Let_def slice_from_neg last_n_def)

lemma last_n_append: "last_n n (last_n n xs @ ys) = last_n n (xs @ ys)"
  by (cases "length xs \<le> n") (auto simp: last_n_def add.commute)

lemma save_all_cache:
  assumes "0 < MAX_OFFLINE_LOGS cfg"
  shows "offline_logs_cache lg = PList q \<Longrightarrow> es \<noteq> [] \<Longrightarrow>
     offline_logs_cache (save_all cfg lg es) = PList (last_n (nat (MAX_OFFLINE_LOGS cfg)) (q @ map fst es))"
proof (induction es arbitrary: lg q)
  case Nil
  then show ?case by simp
next
  case (Cons a es)
  obtain e w where a: "a = (e, w)" by (cases a)
  let ?lg = "save_offline_log cfg w lg e"
  have c: "offline_logs_cache ?lg = PList (last_n (nat (MAX_OFFLINE_LOGS cfg)) (q @ [e]))"
    using save_offline_log_cache[OF Cons.prems(1) assms] .
  show ?case
  proof (cases "es = []")
    case True
    then show ?thesis using c a by simp
  next
    case False
    have "offline_logs_cache (save_all cfg ?lg es)
        = PList (last_n (nat (MAX_OFFLINE_LOGS cfg)) (last_n (nat (MAX_OFFLINE_LOGS cfg)) (q @ [e]) @ map fst es))"
      using Cons.IH[OF c False] .
    then show ?thesis using a by (simp add: last_n_append)
  qed
qed

text \<open>
  The claim C7 bounds the queue by the capacity for every capacity.  With
  \<^verbatim>\<open>MAX_OFFLINE_LOGS=0\<close> the slice \<^verbatim>\<open>cache[-0:]\<close> is the whole list: every append warns
  and nothing is evicted.
\<close>

theorem save_offline_log_zero_capacity:
  "offline_logs_cache
     (save_all (example_config\<lparr>MAX_OFFLINE_LOGS := 0\<rparr>) (AccessLogger Absent)
        [(example_event, Written), (example_event, Written)])
   = PList [example_event, example_event]
   \<and> logged
     (save_all (example_config\<lparr>MAX_OFFLINE_LOGS := 0\<rparr>) (AccessLogger Absent)
        [(example_event, Written), (example_event, Written)])
   = [Warning, Warning]"
  by (simp add: save_offline_log_def AccessLogger_def example_config_def slice_from_def
        persist_offline_logs_def emit_def Let_def)

lemma load_try_loaded: "load_offline_logs_try lg = Inr lg' \<Longrightarrow> cache_loaded lg'"
  by (auto simp: load_offline_logs_try_def emit_def split: sum.splits)

lemma load_offline_logs_returns: "\<exists>lg'. load_offline_logs lg = Inr lg' \<and> cache_loaded lg'"
  by (cases "load_offline_logs_try lg") (simp_all add: load_offline_logs_def load_try_loaded emit_def)


lemma load_list:
  "offline_logs_file lg = Content content \<Longrightarrow> py_strip content \<noteq> [] \<Longrightarrow> json_loads content = Inr (PList events)
   \<Longrightarrow> load_offline_logs lg = Inr lg' \<Longrightarrow> offline_logs_cache lg' = PList events"
  by (auto simp: load_offline_logs_def load_offline_logs_try_def py_len_def emit_def)



lemmas replicate_numeral_step =
  replicate.simps(2) [where n = "pred_numeral k", folded numeral_eq_Suc] for k






subsection \<open>Decoding what was encoded\<close>

lemma hexval_hexdigit: "d < 16 \<Longrightarrow> hexval (hexdigit d) = Some d"
  by (auto simp: hexval_def hexdigit_def)

lemma scanstring_escape_char:
  "scanstring (escape_char c @ r) = cons_char c (scanstring r)"
proof -
  consider "c = 34" | "c = 92" | "c = 8" | "c = 12" | "c = 10" | "c = 13" | "c = 9"
    | "c < 32" "c \<noteq> 8" "c \<noteq> 12" "c \<noteq> 10" "c \<noteq> 13" "c \<noteq> 9"
    | "32 \<le> c" "c \<noteq> 34" "c \<noteq> 92"
    by linarith
  then show ?thesis
  proof cases
    case 8
    have d: "c div 16 < 16" "c mod 16 < 16" using 8(1) by simp_all
    have e: "((0 * 16 + 0) * 16 + c div 16) * 16 + c mod 16 = c" by simp
    have h0: "hexval 48 = Some 0" by (simp add: hexval_def)
    have "decode_uXXXX (48 # 48 # hexdigit (c div 16) # hexdigit (c mod 16) # r) = Some c"
      using hexval_hexdigit [OF d(1)] hexval_hexdigit [OF d(2)] h0 e by simp
    then show ?thesis using 8 by (simp add: escape_char_def)
  qed (simp_all add: escape_char_def backslash_def)
qed

lemma scanstring_encoded:
  "scanstring (concat (map escape_char s) @ 34 # rest) = Some (s, rest)"
  by (induction s) (simp_all add: scanstring_escape_char cons_char_def)

lemma scan_once_string:
  "scan_once (Suc n) (encode_basestring s @ rest) = Ok (PStr s, rest)"
  using scanstring_encoded [of s rest] by (simp add: encode_basestring_def)

lemma start_char_facts:
  "start_char c \<Longrightarrow> \<not> is_ws c \<and> c \<noteq> 93 \<and> c \<noteq> 125 \<and> c \<noteq> 65279 \<and> \<not> py_isspace c"
  by (auto simp: start_char_def is_ws_def py_isspace_def)

lemma iterencode_start:
  "storable v \<Longrightarrow> iterencode lvl v \<noteq> [] \<and> start_char (hd (iterencode lvl v))"
  by (cases v) (auto simp: start_char_def py_def encode_basestring_def)

lemma iterencode_list_start:
  "storable_list xs \<Longrightarrow> xs \<noteq> [] \<Longrightarrow>
     iterencode_list lvl xs \<noteq> [] \<and> start_char (hd (iterencode_list lvl xs))"
  using iterencode_start by (cases xs) auto

lemma iterencode_dict_start:
  "ms \<noteq> [] \<Longrightarrow> \<exists>r. iterencode_dict lvl ms = 34 # r"
  by (cases ms) (auto simp: encode_basestring_def)

lemma skip_ws_start: "s \<noteq> [] \<Longrightarrow> start_char (hd s) \<Longrightarrow> skip_ws s = s"
  using start_char_facts by (cases s) (auto simp: skip_ws_def)

lemma skip_ws_newline_indent: "skip_ws (newline_indent lvl @ s) = skip_ws s"
proof -
  have "\<forall>c \<in> set (newline_indent lvl). is_ws c" by (auto simp: newline_indent_def is_ws_def)
  then show ?thesis by (simp add: skip_ws_def dropWhile_append2)
qed

lemma skip_ws_simps:
  "skip_ws (32 # s) = skip_ws s" "skip_ws (44 # s) = 44 # s" "skip_ws (58 # s) = 58 # s"
  "skip_ws (93 # s) = 93 # s" "skip_ws (125 # s) = 125 # s" "skip_ws (34 # s) = 34 # s"
  "skip_ws [] = []"
  by (simp_all add: skip_ws_def is_ws_def)

lemma dict_setitem_fresh: "k \<notin> fst ` set d \<Longrightarrow> dict_setitem d k v = d @ [(k, v)]"
  by (induction d) auto

lemma dict_fold_distinct:
  "distinct (map fst (d @ ms)) \<Longrightarrow> foldl (\<lambda>d (k, v). dict_setitem d k v) d ms = d @ ms"
proof (induction ms arbitrary: d)
  case Nil
  then show ?case by simp
next
  case (Cons a ms)
  obtain k v where a: "a = (k, v)" by (cases a)
  have "k \<notin> fst ` set d" using Cons.prems a by auto
  then have s: "dict_setitem d k v = d @ [(k, v)]" by (rule dict_setitem_fresh)
  have "distinct (map fst ((d @ [(k, v)]) @ ms))" using Cons.prems a by simp
  from Cons.IH [OF this] show ?case using a s by simp
qed

lemma dict_of_pairs_distinct: "distinct (map fst ms) \<Longrightarrow> dict_of_pairs ms = ms"
  using dict_fold_distinct [of "[]" ms] by (simp add: dict_of_pairs_def)

lemma scan_once_literals:
  "scan_once (Suc n) (py ''null'' @ rest) = Ok (PNone, rest)"
  "scan_once (Suc n) (py ''true'' @ rest) = Ok (PBool True, rest)"
  "scan_once (Suc n) (py ''false'' @ rest) = Ok (PBool False, rest)"
  "scan_once (Suc n) (py ''[]'' @ rest) = Ok (PList [], rest)"
  "scan_once (Suc n) (123 # 125 # rest) = Ok (PDict [], rest)"
  by (simp_all add: py_def skip_ws_simps)

lemma skip_to_value:
  assumes "storable v"
  shows "skip_ws (iterencode lvl v @ s) = iterencode lvl v @ s"
proof -
  have "iterencode lvl v @ s \<noteq> []" "start_char (hd (iterencode lvl v @ s))"
    using iterencode_start [OF assms, of lvl] by simp_all
  then show ?thesis by (rule skip_ws_start)
qed

text \<open>
  The decoder reads back what the encoder wrote, whatever follows the text, once it
  may nest as deep as the value does.
\<close>

lemma scan_round_trip:
  "storable v \<Longrightarrow> nesting v \<le> n \<Longrightarrow>
     scan_once n (iterencode lvl v @ rest) = Ok (v, rest)"
  "storable_list xs \<Longrightarrow> xs \<noteq> [] \<Longrightarrow> nesting_list xs \<le> n \<Longrightarrow>
     JSONArray n (iterencode_list lvl xs @ newline_indent lvl' @ 93 # rest) = Ok (xs, rest)"
  "storable_dict ms \<Longrightarrow> ms \<noteq> [] \<Longrightarrow> nesting_dict ms \<le> n \<Longrightarrow>
     JSONObject n (tl (iterencode_dict lvl ms) @ newline_indent lvl' @ 125 # rest) = Ok (ms, rest)"
proof (induction v and xs and ms arbitrary: rest n lvl and rest n lvl lvl' and rest n lvl lvl'
        rule: storable_storable_list_storable_dict.induct)
  case 1
  then obtain m where "n = Suc m" by (cases n) auto
  then show ?case by (simp add: scan_once_literals)
next
  case (2 b)
  then obtain m where "n = Suc m" by (cases n) auto
  then show ?case by (simp add: scan_once_literals)
next
  case (3 i)
  then show ?case by simp
next
  case (4 s)
  then show ?case by simp
next
  case (5 s)
  then obtain m where "n = Suc m" by (cases n) auto
  then show ?case using scan_once_string by simp
next
  case (6 xs)
  obtain m where n: "n = Suc m" "nesting_list xs \<le> m" using 6(3) by (cases n) auto
  show ?case
  proof (cases "xs = []")
    case True
    then show ?thesis using n by (simp add: scan_once_literals)
  next
    case False
    have sl: "storable_list xs" using 6(2) by simp
    let ?L = "iterencode_list (lvl + 1) xs"
    let ?tail = "newline_indent lvl @ 93 # rest"
    obtain c r where L: "?L = c # r" and c: "start_char c"
      using iterencode_list_start [OF sl False, of "lvl + 1"] by (cases ?L) auto
    have sk: "skip_ws (newline_indent (lvl + 1) @ ?L @ ?tail) = c # (r @ ?tail)"
      using L c skip_ws_start [of "c # r @ ?tail"] by (simp add: skip_ws_newline_indent)
    have a: "JSONArray m (c # (r @ ?tail)) = Ok (xs, rest)"
      using "6.IH" [OF sl False n(2), of "lvl + 1" lvl rest] L by simp
    have e: "iterencode lvl (PList xs) @ rest = 91 # (newline_indent (lvl + 1) @ ?L @ ?tail)"
      using False by simp
    show ?thesis unfolding e n(1) using sk a c start_char_facts [OF c] by simp
  qed
next
  case (7 ms)
  obtain m where n: "n = Suc m" "nesting_dict ms \<le> m" using 7(3) by (cases n) auto
  show ?case
  proof (cases "ms = []")
    case True
    then show ?thesis using n by (simp add: scan_once_literals py_def skip_ws_simps)
  next
    case False
    have sd: "storable_dict ms" and di: "distinct (map fst ms)" using 7(2) by simp_all
    let ?D = "iterencode_dict (lvl + 1) ms"
    let ?tail = "newline_indent lvl @ 125 # rest"
    obtain r where D: "?D = 34 # r" using iterencode_dict_start [OF False, of "lvl + 1"] by blast
    have sk: "skip_ws (newline_indent (lvl + 1) @ ?D @ ?tail) = 34 # (r @ ?tail)"
      using D by (simp add: skip_ws_newline_indent skip_ws_simps)
    have a: "JSONObject m (r @ ?tail) = Ok (ms, rest)"
      using "7.IH" [OF sd False n(2), of "lvl + 1" lvl rest] D by simp
    have e: "iterencode lvl (PDict ms) @ rest = 123 # (newline_indent (lvl + 1) @ ?D @ ?tail)"
      using False by simp
    show ?thesis unfolding e n(1) using sk a by (simp add: dict_of_pairs_distinct [OF di])
  qed
next
  case 8
  then show ?case by simp
next
  case (9 x xs)
  obtain m where n: "n = Suc m" "nesting x \<le> m" "nesting_list xs \<le> m" using 9(5) by (cases n) auto
  have sx: "storable x" and sl: "storable_list xs" using 9(3) by simp_all
  let ?tail = "newline_indent lvl' @ 93 # rest"
  let ?T = "(if xs = [] then [] else 44 # newline_indent lvl @ iterencode_list lvl xs)"
  have e: "iterencode_list lvl (x # xs) @ ?tail = iterencode lvl x @ (?T @ ?tail)" by simp
  have v: "scan_once m (iterencode lvl x @ (?T @ ?tail)) = Ok (x, ?T @ ?tail)"
    using "9.IH"(1) [OF sx n(2)] .
  show ?case
  proof (cases "xs = []")
    case True
    have "skip_ws (?T @ ?tail) = 93 # rest"
      using True by (simp add: skip_ws_newline_indent skip_ws_simps)
    then show ?thesis unfolding e n(1) using v True by simp
  next
    case False
    have s1: "skip_ws (?T @ ?tail) = 44 # (newline_indent lvl @ iterencode_list lvl xs @ ?tail)"
      using False by (simp add: skip_ws_simps)
    have "iterencode_list lvl xs @ ?tail \<noteq> []" "start_char (hd (iterencode_list lvl xs @ ?tail))"
      using iterencode_list_start [OF sl False, of lvl] by simp_all
    then have s2: "skip_ws (newline_indent lvl @ iterencode_list lvl xs @ ?tail)
        = iterencode_list lvl xs @ ?tail"
      using skip_ws_start by (simp add: skip_ws_newline_indent)
    have a: "JSONArray m (iterencode_list lvl xs @ ?tail) = Ok (xs, rest)"
      using "9.IH"(2) [OF sl False n(3)] .
    show ?thesis unfolding e n(1) using v s1 s2 a by simp
  qed
next
  case 10
  then show ?case by simp
next
  case (11 k v ms)
  obtain m where n: "n = Suc m" "nesting v \<le> m" "nesting_dict ms \<le> m" using 11(5) by (cases n) auto
  have sv: "storable v" and sd: "storable_dict ms" using 11(3) by simp_all
  let ?tail = "newline_indent lvl' @ 125 # rest"
  let ?T = "(if ms = [] then [] else 44 # newline_indent lvl @ iterencode_dict lvl ms)"
  let ?R = "?T @ ?tail"
  have e: "tl (iterencode_dict lvl ((k, v) # ms)) @ ?tail
             = concat (map escape_char k) @ 34 # (58 # 32 # iterencode lvl v @ ?R)"
    by (simp add: encode_basestring_def)
  have key: "scanstring (concat (map escape_char k) @ 34 # (58 # 32 # iterencode lvl v @ ?R))
             = Some (k, 58 # 32 # iterencode lvl v @ ?R)"
    by (rule scanstring_encoded)
  have val: "scan_once m (skip_ws (32 # iterencode lvl v @ ?R)) = Ok (v, ?R)"
    using "11.IH"(1) [OF sv n(2)] skip_to_value [OF sv] by (simp add: skip_ws_simps)
  show ?case
  proof (cases "ms = []")
    case True
    have "skip_ws ?R = 125 # rest" using True by (simp add: skip_ws_newline_indent skip_ws_simps)
    then show ?thesis unfolding e n(1) using key val True by (simp add: skip_ws_simps)
  next
    case False
    obtain r where D: "iterencode_dict lvl ms = 34 # r"
      using iterencode_dict_start [OF False, of lvl] by blast
    have s1: "skip_ws ?R = 44 # (newline_indent lvl @ iterencode_dict lvl ms @ ?tail)"
      using False by (simp add: skip_ws_simps)
    have s2: "skip_ws (newline_indent lvl @ iterencode_dict lvl ms @ ?tail) = 34 # (r @ ?tail)"
      using D by (simp add: skip_ws_newline_indent skip_ws_simps)
    have a: "JSONObject m (r @ ?tail) = Ok (ms, rest)"
      using "11.IH"(2) [OF sd False n(3), of lvl lvl' rest] D by simp
    show ?thesis unfolding e n(1) using key val s1 s2 a by (simp add: skip_ws_simps)
  qed
qed

text \<open>The text of a value is longer than the value is deep.\<close>

lemma nesting_length:
  "storable v \<Longrightarrow> nesting v < length (iterencode lvl v)"
  "storable_list xs \<Longrightarrow> nesting_list xs \<le> length (iterencode_list lvl xs)"
  "storable_dict ms \<Longrightarrow> nesting_dict ms \<le> length (iterencode_dict lvl ms)"
proof (induction v and xs and ms arbitrary: lvl and lvl and lvl
        rule: storable_storable_list_storable_dict.induct)
  case (6 xs)
  have "nesting_list xs \<le> length (iterencode_list (Suc lvl) xs)" using 6 by simp
  then show ?case by (simp add: py_def)
next
  case (7 ms)
  have "nesting_dict ms \<le> length (iterencode_dict (Suc lvl) ms)" using 7 by simp
  then show ?case by (simp add: py_def)
next
  case (9 x xs)
  have "nesting x < length (iterencode lvl x)" "nesting_list xs \<le> length (iterencode_list lvl xs)"
    using 9 by simp_all
  then show ?case by (auto simp: max_def)
next
  case (11 k v ms)
  have "nesting v < length (iterencode lvl v)" "nesting_dict ms \<le> length (iterencode_dict lvl ms)"
    using 11 by simp_all
  then show ?case by (auto simp: max_def)
qed (simp_all add: py_def encode_basestring_def)

lemma json_round_trip: 
  assumes "storable v"
  shows "json_loads (json_dumps v) = Inr v"
proof -
  let ?s = "iterencode 0 v"
  have st: "?s \<noteq> []" "start_char (hd ?s)" using iterencode_start [OF assms, of 0] by simp_all
  have bom: "take 1 ?s \<noteq> [65279]" using st start_char_facts [OF st(2)] by (cases ?s) auto
  have sk: "skip_ws ?s = ?s" using st by (rule skip_ws_start)
  have "nesting v \<le> 2 * length ?s + 2" using nesting_length(1) [OF assms, of 0] by simp
  from scan_round_trip(1) [OF assms this, of 0 "[]"]
  have "scan_once (2 * length ?s + 2) ?s = Ok (v, [])" by simp
  then show ?thesis using bom sk by (simp add: json_loads_def json_dumps_def skip_ws_simps)
qed

lemma fields_storable: "fields ms \<Longrightarrow> storable_dict ms"
  by (induction ms rule: fields.induct) (auto simp: field_value_def split: pyval.splits)

lemma access_events_storable: "access_events es \<Longrightarrow> storable_list es"
  by (induction es) (auto simp: access_event_def fields_storable split: pyval.splits)

lemma json_dumps_not_blank:
  assumes "storable v"
  shows "py_strip (json_dumps v) \<noteq> []"
proof -
  let ?s = "iterencode 0 v"
  have st: "?s \<noteq> []" "start_char (hd ?s)" using iterencode_start [OF assms, of 0] by simp_all
  have n: "\<not> py_isspace (hd ?s)" using start_char_facts [OF st(2)] by simp
  then have d: "dropWhile py_isspace ?s = ?s" using st(1) by (cases ?s) auto
  have "hd ?s \<in> set ?s" using st(1) by simp
  then have "\<exists>x \<in> set ?s. \<not> py_isspace x" using n by blast
  then show ?thesis using d by (simp add: py_strip_def json_dumps_def)
qed

text \<open>
  C8.  When the write succeeds, \<^verbatim>\<open>_persist_offline_logs\<close> followed by
  \<^verbatim>\<open>_load_offline_logs\<close>, in the same logger or in one started later on the same file,
  leaves in the cache the list of access events that was there, in the same order and
  with the fields of each event in the order they had; the text that was written decodes
  to that list.  The fields of an event may stand in any order.
\<close>

theorem persist_then_load_round_trip:
  assumes "offline_logs_cache lg = PList events" and "access_events events"
    and "offline_logs_file later = offline_logs_file (persist_offline_logs Written lg)"
  shows "json_loads (json_dumps (PList events)) = Inr (PList events)
       \<and> (\<exists>lg'. load_offline_logs later = Inr lg' \<and> cache_loaded lg'
                \<and> offline_logs_cache lg' = PList events)"
proof -
  have s: "storable (PList events)" using assms(2) by (simp add: access_events_storable)
  have j: "json_loads (json_dumps (PList events)) = Inr (PList events)"
    using s by (rule json_round_trip)
  have b: "py_strip (json_dumps (PList events)) \<noteq> []" using s by (rule json_dumps_not_blank)
  have f: "offline_logs_file later = Content (json_dumps (PList events))"
    using assms(1,3) by (simp add: persist_offline_logs_def)
  obtain lg' where l: "load_offline_logs later = Inr lg'" "cache_loaded lg'"
    using load_offline_logs_returns by blast
  have "offline_logs_cache lg' = PList events" using load_list [OF f b j l(1)] .
  then show ?thesis using j l by blast
qed

text \<open>
  Two events with their fields in different orders, written by a logger whose cache
  holds them and loaded by a logger started on the file.
\<close>

theorem persist_then_load_round_trip_witness:
  "access_events [example_event, manual_event]
   \<and> json_loads (json_dumps (PList [example_event, manual_event]))
       = Inr (PList [example_event, manual_event])
   \<and> (\<exists>lg'. load_offline_logs
               (AccessLogger (offline_logs_file
                  (persist_offline_logs Written
                     ((AccessLogger Absent)\<lparr>offline_logs_cache := PList [example_event, manual_event]\<rparr>))))
               = Inr lg'
            \<and> cache_loaded lg' \<and> offline_logs_cache lg' = PList [example_event, manual_event])"
proof -
  have a: "access_events [example_event, manual_event]"
    by (simp add: access_event_def field_value_def example_event_def manual_event_def access_log_def)
  show ?thesis
    using a persist_then_load_round_trip
      [where lg = "(AccessLogger Absent)\<lparr>offline_logs_cache := PList [example_event, manual_event]\<rparr>"
         and events = "[example_event, manual_event]"
         and later = "AccessLogger (offline_logs_file
                  (persist_offline_logs Written
                     ((AccessLogger Absent)\<lparr>offline_logs_cache := PList [example_event, manual_event]\<rparr>)))"]
    by (simp add: AccessLogger_def)
qed

section \<open>Properties of the updater\<close>

lemma called_frame [simp]:
  "updating (called c up) = updating up" "app_dir (called c up) = app_dir up"
  "backup_dir (called c up) = backup_dir up" "restart_required (called c up) = restart_required up"
  "backend_calls (called c up) = backend_calls up @ [c]"
  by (simp_all add: called_def)













lemma verify_failure_effect:
  assumes "report_update_status be (u_id info) (py ''started'') = Inr ()"
    and "download_update be info = Inr (Some update_data)" and "update_data \<noteq> []"
    and "\<not> verify_update env update_data info"
    and "report_update_status be (u_id info) (py ''failed'') = Inr ()"
  shows "backup_dir (snd (perform_update be env info up)) = backup_dir up"
    and "app_dir (snd (perform_update be env info up))
           = (case latest_backup (backup_dir up) of None \<Rightarrow> app_dir up | Some b \<Rightarrow> archived b)"
  using assms
  by (simp_all add: perform_update_def perform_update_try_def Let_def restore_backup_def
        split: option.splits)

text \<open>
  The claim C4 has the application tree unchanged by an attempt that fails verification.
  The handler of \<^verbatim>\<open>_perform_update\<close> calls \<^verbatim>\<open>_restore_backup\<close> after every failure, also
  when no backup was made in the attempt: with an archive of an earlier update in the
  backup directory, a package whose hash does not match replaces the live tree by that
  archive.  The backup directory is unchanged.
\<close>

theorem hash_mismatch_restores_stale_backup:
  "\<not> verify_update example_env [80, 75] bad_hash_update
   \<and> app_dir updated_once = Some current_tree
   \<and> app_dir (check_and_update example_config
                 (example_backend\<lparr>check_updates := Inr (Some bad_hash_update)\<rparr>) example_env updated_once)
        = Some old_tree
   \<and> backup_dir (check_and_update example_config
                 (example_backend\<lparr>check_updates := Inr (Some bad_hash_update)\<rparr>) example_env updated_once)
        = backup_dir updated_once"
  by (simp add: check_and_update_def perform_update_def perform_update_try_def Let_def
        restore_backup_def verify_update_def example_env_def bad_hash_update_def example_update_def
        example_backend_def example_config_def updated_once_def called_def)




end
